theory Spec2Isabelle
  imports Main "HOL-Library.Word" "HOL-Library.AList"
begin

section \<open>Strings\<close>

text \<open>
  A JavaScript string is a sequence of UTF-16 code units. Literals of the source are
  written \<open>str ''...''\<close>.
\<close>

type_synonym js_string = "16 word list"

definition str :: "string \<Rightarrow> js_string" where
  "str s = map of_char s"

text \<open>
  \<open>String.prototype.trim\<close> removes the code units of ECMAScript's WhiteSpace and
  LineTerminator productions from both ends.
\<close>

definition isWhiteSpace :: "16 word \<Rightarrow> bool" where
  "isWhiteSpace c \<longleftrightarrow>
     c \<in> set [0x0009, 0x000A, 0x000B, 0x000C, 0x000D, 0x0020, 0x00A0, 0x1680,
              0x2000, 0x2001, 0x2002, 0x2003, 0x2004, 0x2005, 0x2006, 0x2007,
              0x2008, 0x2009, 0x200A, 0x2028, 0x2029, 0x202F, 0x205F, 0x3000, 0xFEFF]"

definition trim :: "js_string \<Rightarrow> js_string" where
  "trim s = rev (dropWhile isWhiteSpace (rev (dropWhile isWhiteSpace s)))"

section \<open>The catalog\<close>

text \<open>
  The type declarations (\<open>../types\<close>) are not part of the sources; the records below
  hold the fields the code reads and writes, each optional where the code tests for
  its absence. A JSON object is an association list in the object's own enumeration
  order (\<open>for ... in\<close>, \<open>Object.entries\<close>); an own property is looked up with
  \<open>map_of\<close>.
\<close>

record StringUnit =
  state :: js_string
  value' :: "js_string option"

record Localization =
  stringUnit :: "StringUnit option"

type_synonym Localizations = "(js_string \<times> Localization) list"

record StringEntry =
  comment :: "js_string option"
  shouldTranslate :: "bool option"
  extractionState :: "js_string option"
  localizations :: "Localizations option"

record XCStrings =
  sourceLanguage :: "js_string option"
  strings :: "(js_string \<times> StringEntry) list"

record TranslationRequest =
  key :: js_string
  text' :: js_string
  targetLanguages :: "js_string list"
  comment' :: "js_string option"

record TranslationChanges =
  added :: "js_string list"
  updated :: "js_string list"
  staleRemoved :: "js_string list"

text \<open>The values of \<open>stringTranslationMap\<close>; a JavaScript \<open>Map\<close> is a partial function.\<close>

record TranslationInfo =
  languages :: "js_string list"
  isNew :: "js_string \<rightharpoonup> bool"

record StringAnalysisResult =
  translationRequests :: "TranslationRequest list"
  translationChanges :: TranslationChanges
  stringTranslationMap :: "js_string \<rightharpoonup> TranslationInfo"
  modifiedXcstringsData :: XCStrings
  xcstringsModified :: bool
  fallbackToKeyCount :: nat

section \<open>Property access\<close>

text \<open>
  The objects of a catalog come from \<open>JSON.parse\<close>, so their prototype is
  \<open>Object.prototype\<close>, and \<open>obj[name]\<close> with a name that is not an own property of
  \<open>obj\<close> goes on to the prototype. These are the names of the properties of
  \<open>Object.prototype\<close> when the action starts (ECMAScript, with its Annex B): eleven
  functions and the accessor \<open>__proto__\<close>, which reads as \<open>Object.prototype\<close> itself.
  None of them is enumerable, so \<open>for ... in\<close> and \<open>Object.entries\<close> do not list
  them.
\<close>

definition objectPrototypeNames :: "js_string list" where
  "objectPrototypeNames =
     map str [''constructor'', ''__defineGetter__'', ''__defineSetter__'', ''hasOwnProperty'',
              ''__lookupGetter__'', ''__lookupSetter__'', ''isPrototypeOf'',
              ''propertyIsEnumerable'', ''toString'', ''valueOf'', ''__proto__'',
              ''toLocaleString'']"

text \<open>
  The result of \<open>obj[name]\<close>: the value of the own property, a member inherited from
  \<open>Object.prototype\<close> (an object, hence truthy, and with no property \<open>stringUnit\<close>
  of its own), or \<open>undefined\<close>. \<open>protoNames\<close> are the names of the properties that
  \<open>Object.prototype\<close> has at that moment.
\<close>

datatype 'a property = Own 'a | Inherited | Undefined

definition getProperty :: "js_string list \<Rightarrow> (js_string \<times> 'a) list \<Rightarrow> js_string \<Rightarrow> 'a property" where
  "getProperty protoNames obj name =
     (case map_of obj name of
        Some v \<Rightarrow> Own v
      | None \<Rightarrow> if name \<in> set protoNames then Inherited else Undefined)"

text \<open>
  The assignment \<open>obj[name] = v\<close> for a name that is not yet a property of \<open>obj\<close> and
  not a name of \<open>Object.prototype\<close>: the new property is listed after the existing
  ones, except that the names that are array indices (canonical decimal numerals below
  \<open>2^32 - 1\<close>) are listed first, in ascending order.
\<close>

definition arrayIndex :: "js_string \<Rightarrow> nat option" where
  "arrayIndex name =
     (let n = foldl (\<lambda>n c. 10 * n + (unat c - 48)) 0 name
      in if name \<noteq> [] \<and> list_all (\<lambda>c. 0x30 \<le> c \<and> c \<le> 0x39) name \<and>
            (hd name \<noteq> 0x30 \<or> length name = 1) \<and> n < 2 ^ 32 - 1
         then Some n else None)"

fun addProperty :: "js_string \<Rightarrow> 'a \<Rightarrow> (js_string \<times> 'a) list \<Rightarrow> (js_string \<times> 'a) list" where
  "addProperty name v [] = [(name, v)]"
| "addProperty name v ((n, w) # rest) =
     (case arrayIndex name of
        None \<Rightarrow> (n, w) # rest @ [(name, v)]
      | Some i \<Rightarrow>
          (case arrayIndex n of
             None \<Rightarrow> (name, v) # (n, w) # rest
           | Some j \<Rightarrow> if j < i then (n, w) # addProperty name v rest
                       else (name, v) # (n, w) # rest))"

section \<open>analyzeStringsForTranslation (src/helpers/stringAnalyzer.ts)\<close>

text \<open>
  Lines 68--73: whether one target language needs a translation.
  \<open>targetLocalization\<close> is \<open>currentStringEntry.localizations[lang]\<close>; for a language
  code that is no own property of the localizations but a name of \<open>Object.prototype\<close>
  it is the inherited member, whose \<open>stringUnit\<close> is \<open>undefined\<close>.
\<close>

definition targetLocalization :: "Localizations \<Rightarrow> js_string \<Rightarrow> Localization property" where
  "targetLocalization locs lang = getProperty objectPrototypeNames locs lang"

definition targetStringUnit :: "Localizations \<Rightarrow> js_string \<Rightarrow> StringUnit option" where
  "targetStringUnit locs lang =
     (case targetLocalization locs lang of
        Own l \<Rightarrow> stringUnit l
      | Inherited \<Rightarrow> None
      | Undefined \<Rightarrow> None)"

definition isMissingOrEmpty :: "StringUnit option \<Rightarrow> bool" where
  "isMissingOrEmpty u =
     (case u of None \<Rightarrow> True
      | Some su \<Rightarrow> (case value' su of None \<Rightarrow> True
                   | Some v \<Rightarrow> v = [] \<or> length (trim v) = 0))"

definition isNeedsReview :: "StringUnit option \<Rightarrow> bool" where
  "isNeedsReview u = (case u of None \<Rightarrow> False | Some su \<Rightarrow> state su = str ''needs_review'')"

definition needsTranslationForLang :: "Localizations \<Rightarrow> js_string \<Rightarrow> bool" where
  "needsTranslationForLang locs lang \<longleftrightarrow>
     isMissingOrEmpty (targetStringUnit locs lang) \<or> isNeedsReview (targetStringUnit locs lang)"

text \<open>
  Lines 67--80: the loop over the target languages, in the caller's order.
  \<open>isNewTranslation\<close> is \<open>!targetLocalization\<close>: true only when the lookup yields
  \<open>undefined\<close>.
\<close>

fun checkLanguages ::
  "Localizations \<Rightarrow> js_string list \<Rightarrow> js_string list \<times> (js_string \<rightharpoonup> bool)
     \<Rightarrow> js_string list \<times> (js_string \<rightharpoonup> bool)" where
  "checkLanguages locs [] acc = acc"
| "checkLanguages locs (lang # rest) (languagesNeeded, isNewMap) =
     (if needsTranslationForLang locs lang
      then checkLanguages locs rest
             (languagesNeeded @ [lang],
              isNewMap(lang \<mapsto> (targetLocalization locs lang = Undefined)))
      else checkLanguages locs rest (languagesNeeded, isNewMap))"

text \<open>
  Lines 84--87: the optional chain
  \<open>localizations?.[sourceLanguageForText]?.stringUnit?.value?.trim()\<close>; an empty
  \<open>sourceLanguageForText\<close> is falsy and counts as no hint. A hint that is no own
  property of the localizations yields \<open>undefined\<close> whether or not it is a name of
  \<open>Object.prototype\<close>, as an inherited member has no \<open>stringUnit\<close>; so the own
  properties decide.
\<close>

definition sourceTextCandidate :: "js_string option \<Rightarrow> Localizations \<Rightarrow> js_string option" where
  "sourceTextCandidate sourceLanguageForText locs =
     (case sourceLanguageForText of None \<Rightarrow> None
      | Some src \<Rightarrow>
          if src = [] then None
          else (case map_of locs src of None \<Rightarrow> None
                | Some l \<Rightarrow> (case stringUnit l of None \<Rightarrow> None
                            | Some su \<Rightarrow> (case value' su of None \<Rightarrow> None
                                         | Some v \<Rightarrow> Some (trim v)))))"

definition useKeyFallback :: "js_string option \<Rightarrow> bool" where
  "useKeyFallback cand = (case cand of None \<Rightarrow> True | Some c \<Rightarrow> c = [] \<or> length c = 0)"

definition sourceText :: "js_string \<Rightarrow> js_string option \<Rightarrow> js_string" where
  "sourceText k cand =
     (if useKeyFallback cand then k else (case cand of None \<Rightarrow> k | Some c \<Rightarrow> c))"

definition is_stale :: "StringEntry \<Rightarrow> bool" where
  "is_stale e \<longleftrightarrow> extractionState e = Some (str ''stale'')"

definition set_strings :: "(js_string \<times> StringEntry) list \<Rightarrow> StringAnalysisResult \<Rightarrow> StringAnalysisResult" where
  "set_strings al st = st\<lparr>modifiedXcstringsData := (modifiedXcstringsData st)\<lparr>strings := al\<rparr>\<rparr>"

text \<open>
  Lines 46--100: the body of the loop for an entry \<open>currentStringEntry\<close> found under
  \<open>key\<close> in the working copy.
\<close>

definition analyzeEntry ::
  "js_string list \<Rightarrow> js_string option \<Rightarrow> js_string \<Rightarrow> StringEntry
     \<Rightarrow> StringAnalysisResult \<Rightarrow> StringAnalysisResult" where
  "analyzeEntry targetLangs sourceLanguageForText k currentStringEntry st =
     (if is_stale currentStringEntry then
        (set_strings (AList.delete k (strings (modifiedXcstringsData st))) st)
          \<lparr>xcstringsModified := True,
           translationChanges := (translationChanges st)
             \<lparr>staleRemoved := staleRemoved (translationChanges st) @ [k]\<rparr>\<rparr>
      else if shouldTranslate currentStringEntry = Some False then st
      else
        let locs = (case localizations currentStringEntry of None \<Rightarrow> [] | Some ls \<Rightarrow> ls);
            st1 = (case localizations currentStringEntry of
                     None \<Rightarrow> set_strings (AList.update k (currentStringEntry\<lparr>localizations := Some []\<rparr>)
                                             (strings (modifiedXcstringsData st))) st
                   | Some ls \<Rightarrow> st);
            (languagesNeeded, isNewMap) = checkLanguages locs targetLangs ([], Map.empty)
        in if length languagesNeeded > 0 then
             let cand = sourceTextCandidate sourceLanguageForText locs
             in st1\<lparr>fallbackToKeyCount :=
                      (if useKeyFallback cand then fallbackToKeyCount st1 + 1
                       else fallbackToKeyCount st1),
                    translationRequests := translationRequests st1 @
                      [\<lparr>key = k, text' = sourceText k cand,
                        targetLanguages = languagesNeeded,
                        comment' = comment currentStringEntry\<rparr>],
                    stringTranslationMap := (stringTranslationMap st1)
                      (k \<mapsto> \<lparr>languages = languagesNeeded, isNew = isNewMap\<rparr>)\<rparr>
           else st1)"

text \<open>
  Lines 42--43: \<open>for (const key in modifiedXcstringsData.strings)\<close> visits the keys the
  object had when the loop started, skips a key that is no longer a property when its
  turn comes, and reads the entry from the working copy.
\<close>

definition analyzeKey ::
  "js_string list \<Rightarrow> js_string option \<Rightarrow> js_string
     \<Rightarrow> StringAnalysisResult \<Rightarrow> StringAnalysisResult" where
  "analyzeKey targetLangs sourceLanguageForText k st =
     (case map_of (strings (modifiedXcstringsData st)) k of
        None \<Rightarrow> st
      | Some currentStringEntry \<Rightarrow>
          analyzeEntry targetLangs sourceLanguageForText k currentStringEntry st)"

text \<open>
  Lines 30--40: \<open>JSON.parse(JSON.stringify(xcstringsData))\<close> yields a value equal to
  the argument, so the working copy starts as the catalog itself; that the copy shares
  no object with the caller's catalog is the subject of the store model further down.
\<close>

definition initialResult :: "XCStrings \<Rightarrow> StringAnalysisResult" where
  "initialResult xcstringsData =
     \<lparr>translationRequests = [],
      translationChanges = \<lparr>added = [], updated = [], staleRemoved = []\<rparr>,
      stringTranslationMap = Map.empty,
      modifiedXcstringsData = xcstringsData,
      xcstringsModified = False,
      fallbackToKeyCount = 0\<rparr>"

definition analyzeStringsForTranslation ::
  "XCStrings \<Rightarrow> js_string list \<Rightarrow> js_string option \<Rightarrow> StringAnalysisResult" where
  "analyzeStringsForTranslation xcstringsData targetLangs sourceLanguageForText =
     fold (analyzeKey targetLangs sourceLanguageForText)
          (map fst (strings xcstringsData))
          (initialResult xcstringsData)"

section \<open>The merge loop of run (the unnamed source file part_001)\<close>

text \<open>
  Lines 85--110 of \<open>part_001\<close>, the action's entry point.
  \<open>batchResponse.translations\<close> is the provider's answer, a parameter here. An
  assignment through \<open>undefined\<close> throws a TypeError, which \<open>run\<close> catches at its
  end (lines 198--204): the run fails and nothing is written. The state of the loop
  holds, besides the catalog, the ledger and the warnings, the names of the properties
  of \<open>Object.prototype\<close>, since an assignment of the loop can add one.
\<close>

datatype error = TypeError

record TranslationResult =
  key' :: js_string
  translations' :: "(js_string \<times> js_string) list"

record MergeState =
  updatedXcstringsData :: XCStrings
  changes :: TranslationChanges
  warnings :: "js_string list"
  objectPrototype :: "js_string list"

definition changeKey :: "js_string \<Rightarrow> js_string \<Rightarrow> js_string" where
  "changeKey k lang = k @ str '' ('' @ lang @ str '')''"

text \<open>
  Lines 96--108, one pair of \<open>Object.entries(translationResult.translations)\<close>.
  \<open>stringEntry\<close> is the entry object of the catalog, mutated in place; the model
  threads it through the pairs and stores it back under its key afterwards.
  \<open>stringEntry.localizations![lang]!.stringUnit = ...\<close> carries two non-null
  assertions that TypeScript erases. When \<open>localizations[lang]\<close> is a localization of
  the entry, its \<open>stringUnit\<close> is replaced. When it is \<open>undefined\<close>, the assignment
  throws. When it is a member inherited from \<open>Object.prototype\<close>, the assignment
  gives that member a property \<open>stringUnit\<close> and the catalog stays as it is; for the
  language code \<open>__proto__\<close> the member is \<open>Object.prototype\<close> itself, which thereby
  gets the property \<open>stringUnit\<close>, from then on inherited by every object. In the last
  two cases the identifier is recorded as in the first.
\<close>

definition recordChange ::
  "js_string \<Rightarrow> TranslationInfo \<Rightarrow> js_string \<Rightarrow> TranslationChanges \<Rightarrow> TranslationChanges" where
  "recordChange k translationInfo lang ch =
     (if isNew translationInfo lang = Some True
      then ch\<lparr>added := added ch @ [changeKey k lang]\<rparr>
      else ch\<lparr>updated := updated ch @ [changeKey k lang]\<rparr>)"

definition applyTranslation ::
  "js_string \<Rightarrow> TranslationInfo \<Rightarrow> js_string \<times> js_string
     \<Rightarrow> StringEntry \<times> TranslationChanges \<times> js_string list
     \<Rightarrow> error + StringEntry \<times> TranslationChanges \<times> js_string list" where
  "applyTranslation k translationInfo p s =
     (case p of (lang, translatedValue) \<Rightarrow>
      case s of (stringEntry, ch, protoNames) \<Rightarrow>
        if lang \<in> set (languages translationInfo) then
          (case localizations stringEntry of
             None \<Rightarrow> Inl TypeError
           | Some locs \<Rightarrow>
               (case getProperty protoNames locs lang of
                  Undefined \<Rightarrow> Inl TypeError
                | Inherited \<Rightarrow>
                    Inr (stringEntry, recordChange k translationInfo lang ch,
                         if lang = str ''__proto__''
                         then List.insert (str ''stringUnit'') protoNames else protoNames)
                | Own loc \<Rightarrow>
                    Inr (stringEntry\<lparr>localizations := Some (AList.update lang
                           (loc\<lparr>stringUnit := Some \<lparr>state = str ''translated'',
                                                     value' = Some translatedValue\<rparr>\<rparr>) locs)\<rparr>,
                         recordChange k translationInfo lang ch, protoNames)))
        else Inr s)"

fun applyTranslations ::
  "js_string \<Rightarrow> TranslationInfo \<Rightarrow> (js_string \<times> js_string) list
     \<Rightarrow> StringEntry \<times> TranslationChanges \<times> js_string list
     \<Rightarrow> error + StringEntry \<times> TranslationChanges \<times> js_string list" where
  "applyTranslations k translationInfo [] s = Inr s"
| "applyTranslations k translationInfo (p # ps) s =
     (case applyTranslation k translationInfo p s of
        Inl err \<Rightarrow> Inl err
      | Inr s' \<Rightarrow> applyTranslations k translationInfo ps s')"

definition unknownKeyWarning :: "js_string \<Rightarrow> js_string" where
  "unknownKeyWarning k = str ''Received translation for unknown key: '' @ k"

definition warn :: "js_string \<Rightarrow> MergeState \<Rightarrow> MergeState" where
  "warn k st = st\<lparr>warnings := warnings st @ [unknownKeyWarning k]\<rparr>"

text \<open>
  Lines 86--109, one item of the response. The need index is the one the analysis
  built, whose keys are own properties of the catalog's strings: when \<open>strings[key]\<close>
  finds no entry of the catalog (it is \<open>undefined\<close>, or a member inherited from
  \<open>Object.prototype\<close>), \<open>translationInfo\<close> is \<open>undefined\<close> and the item is answered
  with the warning.
\<close>

definition mergeTranslationResult ::
  "(js_string \<rightharpoonup> TranslationInfo) \<Rightarrow> TranslationResult \<Rightarrow> MergeState \<Rightarrow> error + MergeState" where
  "mergeTranslationResult stm translationResult st =
     (let k = key' translationResult in
      case map_of (strings (updatedXcstringsData st)) k of
        None \<Rightarrow> Inr (warn k st)
      | Some stringEntry \<Rightarrow>
          (case stm k of
             None \<Rightarrow> Inr (warn k st)
           | Some translationInfo \<Rightarrow>
               (case applyTranslations k translationInfo (translations' translationResult)
                       (stringEntry, changes st, objectPrototype st) of
                  Inl err \<Rightarrow> Inl err
                | Inr (stringEntry', ch', protoNames') \<Rightarrow>
                    Inr (st\<lparr>updatedXcstringsData := (updatedXcstringsData st)
                               \<lparr>strings := AList.update k stringEntry'
                                             (strings (updatedXcstringsData st))\<rparr>,
                            changes := ch', objectPrototype := protoNames'\<rparr>))))"

fun mergeTranslations ::
  "(js_string \<rightharpoonup> TranslationInfo) \<Rightarrow> TranslationResult list \<Rightarrow> MergeState \<Rightarrow> error + MergeState" where
  "mergeTranslations stm [] st = Inr st"
| "mergeTranslations stm (translationResult # rest) st =
     (case mergeTranslationResult stm translationResult st of
        Inl err \<Rightarrow> Inl err
      | Inr st' \<Rightarrow> mergeTranslations stm rest st')"

text \<open>
  Lines 68--111: the fields of the analysis result that \<open>run\<close> takes apart, and the
  merge, entered only when there is a request.
\<close>

definition mergeBatch ::
  "TranslationRequest list \<Rightarrow> TranslationChanges \<Rightarrow> (js_string \<rightharpoonup> TranslationInfo)
     \<Rightarrow> XCStrings \<Rightarrow> TranslationResult list \<Rightarrow> error + MergeState" where
  "mergeBatch requests ch stm updatedData batchTranslations =
     (let st = \<lparr>updatedXcstringsData = updatedData, changes = ch, warnings = [],
                objectPrototype = objectPrototypeNames\<rparr>
      in if length requests > 0 then mergeTranslations stm batchTranslations st else Inr st)"

definition runTranslation ::
  "XCStrings \<Rightarrow> js_string list \<Rightarrow> js_string option \<Rightarrow> TranslationResult list
     \<Rightarrow> error + MergeState" where
  "runTranslation currentXcstringsData targetLangs sourceLanguageInput batchTranslations =
     (let analysisResult =
            analyzeStringsForTranslation currentXcstringsData targetLangs sourceLanguageInput
      in mergeBatch (translationRequests analysisResult) (translationChanges analysisResult)
           (stringTranslationMap analysisResult) (modifiedXcstringsData analysisResult)
           batchTranslations)"

section \<open>The earlier analyzeStringsForTranslation (the unnamed source file part_000)\<close>

text \<open>
  A second copy of the analyzer is among the sources. It differs from
  \<open>src/helpers/stringAnalyzer.ts\<close> in three places: a language needs translation
  only when its entry, its stringUnit or its value is absent or empty (lines 66--69);
  a missing localization entry is created with an empty translated stringUnit while
  the languages are checked (lines 76--81); there is no fallback counter. A member
  inherited from \<open>Object.prototype\<close> is truthy and has no \<open>stringUnit\<close>: the language
  is needed, is not new, and no entry is created for it.
\<close>

record StringAnalysisResult0 =
  translationRequests0 :: "TranslationRequest list"
  translationChanges0 :: TranslationChanges
  stringTranslationMap0 :: "js_string \<rightharpoonup> TranslationInfo"
  modifiedXcstringsData0 :: XCStrings
  xcstringsModified0 :: bool

definition needsTranslationForLang0 :: "Localizations \<Rightarrow> js_string \<Rightarrow> bool" where
  "needsTranslationForLang0 locs lang \<longleftrightarrow>
     (case getProperty objectPrototypeNames locs lang of
        Undefined \<Rightarrow> True
      | Inherited \<Rightarrow> True
      | Own l \<Rightarrow> (case stringUnit l of
                    None \<Rightarrow> True
                  | Some su \<Rightarrow> (case value' su of None \<Rightarrow> True | Some v \<Rightarrow> v = [])))"

fun checkLanguages0 ::
  "js_string list \<Rightarrow> Localizations \<times> js_string list \<times> (js_string \<rightharpoonup> bool)
     \<Rightarrow> Localizations \<times> js_string list \<times> (js_string \<rightharpoonup> bool)" where
  "checkLanguages0 [] acc = acc"
| "checkLanguages0 (lang # rest) (locs, languagesNeeded, isNewMap) =
     (if needsTranslationForLang0 locs lang
      then checkLanguages0 rest
             (case getProperty objectPrototypeNames locs lang of
                Undefined \<Rightarrow> addProperty lang
                          \<lparr>stringUnit = Some \<lparr>state = str ''translated'', value' = Some []\<rparr>\<rparr> locs
              | Inherited \<Rightarrow> locs
              | Own l \<Rightarrow> locs,
              languagesNeeded @ [lang],
              isNewMap(lang \<mapsto> (getProperty objectPrototypeNames locs lang = Undefined)))
      else checkLanguages0 rest (locs, languagesNeeded, isNewMap))"

definition analyzeEntry0 ::
  "js_string list \<Rightarrow> js_string option \<Rightarrow> js_string \<Rightarrow> StringEntry
     \<Rightarrow> StringAnalysisResult0 \<Rightarrow> StringAnalysisResult0" where
  "analyzeEntry0 targetLangs sourceLanguageForText k currentStringEntry st =
     (if is_stale currentStringEntry then
        st\<lparr>modifiedXcstringsData0 := (modifiedXcstringsData0 st)
              \<lparr>strings := AList.delete k (strings (modifiedXcstringsData0 st))\<rparr>,
           xcstringsModified0 := True,
           translationChanges0 := (translationChanges0 st)
             \<lparr>staleRemoved := staleRemoved (translationChanges0 st) @ [k]\<rparr>\<rparr>
      else if shouldTranslate currentStringEntry = Some False then st
      else
        let (locs, languagesNeeded, isNewMap) =
              checkLanguages0 targetLangs
                (case localizations currentStringEntry of None \<Rightarrow> [] | Some ls \<Rightarrow> ls,
                 [], Map.empty);
            st1 = st\<lparr>modifiedXcstringsData0 := (modifiedXcstringsData0 st)
                    \<lparr>strings := AList.update k (currentStringEntry\<lparr>localizations := Some locs\<rparr>)
                                  (strings (modifiedXcstringsData0 st))\<rparr>\<rparr>
        in if length languagesNeeded > 0 then
             st1\<lparr>translationRequests0 := translationRequests0 st1 @
                    [\<lparr>key = k, text' = sourceText k (sourceTextCandidate sourceLanguageForText locs),
                      targetLanguages = languagesNeeded,
                      comment' = comment currentStringEntry\<rparr>],
                  stringTranslationMap0 := (stringTranslationMap0 st1)
                    (k \<mapsto> \<lparr>languages = languagesNeeded, isNew = isNewMap\<rparr>)\<rparr>
           else st1)"

definition analyzeKey0 ::
  "js_string list \<Rightarrow> js_string option \<Rightarrow> js_string
     \<Rightarrow> StringAnalysisResult0 \<Rightarrow> StringAnalysisResult0" where
  "analyzeKey0 targetLangs sourceLanguageForText k st =
     (case map_of (strings (modifiedXcstringsData0 st)) k of
        None \<Rightarrow> st
      | Some currentStringEntry \<Rightarrow>
          analyzeEntry0 targetLangs sourceLanguageForText k currentStringEntry st)"

definition analyzeStringsForTranslation0 ::
  "XCStrings \<Rightarrow> js_string list \<Rightarrow> js_string option \<Rightarrow> StringAnalysisResult0" where
  "analyzeStringsForTranslation0 xcstringsData targetLangs sourceLanguageForText =
     fold (analyzeKey0 targetLangs sourceLanguageForText)
          (map fst (strings xcstringsData))
          \<lparr>translationRequests0 = [],
           translationChanges0 = \<lparr>added = [], updated = [], staleRemoved = []\<rparr>,
           stringTranslationMap0 = Map.empty,
           modifiedXcstringsData0 = xcstringsData,
           xcstringsModified0 = False\<rparr>"

definition runTranslation0 ::
  "XCStrings \<Rightarrow> js_string list \<Rightarrow> js_string option \<Rightarrow> TranslationResult list
     \<Rightarrow> error + MergeState" where
  "runTranslation0 currentXcstringsData targetLangs sourceLanguageInput batchTranslations =
     (let analysisResult =
            analyzeStringsForTranslation0 currentXcstringsData targetLangs sourceLanguageInput
      in mergeBatch (translationRequests0 analysisResult) (translationChanges0 analysisResult)
           (stringTranslationMap0 analysisResult) (modifiedXcstringsData0 analysisResult)
           batchTranslations)"

section \<open>Auxiliary notions for the analysis\<close>

text \<open>
  What the loop body does to one entry, named so that the result of the whole loop can be
  written down field by field.
\<close>

definition locs_of :: "StringEntry \<Rightarrow> Localizations" where
  "locs_of e = (case localizations e of None \<Rightarrow> [] | Some ls \<Rightarrow> ls)"

definition skipped :: "StringEntry \<Rightarrow> bool" where
  "skipped e \<longleftrightarrow> is_stale e \<or> shouldTranslate e = Some False"

definition neededLanguages :: "js_string list \<Rightarrow> StringEntry \<Rightarrow> js_string list" where
  "neededLanguages targetLangs e = filter (needsTranslationForLang (locs_of e)) targetLangs"

definition emits :: "js_string list \<Rightarrow> StringEntry \<Rightarrow> bool" where
  "emits targetLangs e \<longleftrightarrow> \<not> skipped e \<and> neededLanguages targetLangs e \<noteq> []"

definition requestFor :: "js_string list \<Rightarrow> js_string option \<Rightarrow> js_string \<Rightarrow> StringEntry \<Rightarrow> TranslationRequest" where
  "requestFor targetLangs h k e =
     \<lparr>key = k, text' = sourceText k (sourceTextCandidate h (locs_of e)),
      targetLanguages = neededLanguages targetLangs e, comment' = comment e\<rparr>"

definition infoFor :: "js_string list \<Rightarrow> StringEntry \<Rightarrow> TranslationInfo" where
  "infoFor targetLangs e =
     \<lparr>languages = neededLanguages targetLangs e,
      isNew = snd (checkLanguages (locs_of e) targetLangs ([], Map.empty))\<rparr>"

definition normalized :: "StringEntry \<Rightarrow> StringEntry" where
  "normalized e =
     (if shouldTranslate e = Some False then e
      else (case localizations e of None \<Rightarrow> e\<lparr>localizations := Some []\<rparr> | Some ls \<Rightarrow> e))"

definition fallsBack :: "js_string list \<Rightarrow> js_string option \<Rightarrow> StringEntry \<Rightarrow> bool" where
  "fallsBack targetLangs h e \<longleftrightarrow>
     emits targetLangs e \<and> useKeyFallback (sourceTextCandidate h (locs_of e))"

definition analyzeEntries ::
  "js_string list \<Rightarrow> js_string option \<Rightarrow> (js_string \<times> StringEntry) list
     \<Rightarrow> StringAnalysisResult \<Rightarrow> StringAnalysisResult" where
  "analyzeEntries L h l st = fold (\<lambda>(k, e). analyzeEntry L h k e) l st"

definition remaining :: "(js_string \<times> StringEntry) list \<Rightarrow> (js_string \<times> StringEntry) list" where
  "remaining l = map (\<lambda>(k, e). (k, normalized e)) (filter (\<lambda>(k, e). \<not> is_stale e) l)"


text \<open>What a merge leaves behind besides its diagnostics: the catalog and the ledger.\<close>

definition outcome :: "error + MergeState \<Rightarrow> error + XCStrings \<times> TranslationChanges" where
  "outcome r = (case r of Inl err \<Rightarrow> Inl err | Inr st \<Rightarrow> Inr (updatedXcstringsData st, changes st))"



section \<open>Examples\<close>

text \<open>
  A catalog of four entries (one with a translation to review, one stale and opted
  out, one opted out, one without localizations), and further catalogs, provider
  responses and results on which the definitions are run.
\<close>

definition unit_of :: "string \<Rightarrow> string \<Rightarrow> Localization" where
  "unit_of s v = \<lparr>stringUnit = Some \<lparr>state = str s, value' = Some (str v)\<rparr>\<rparr>"

definition plainEntry :: StringEntry where
  "plainEntry = \<lparr>comment = None, shouldTranslate = None, extractionState = None,
                  localizations = None\<rparr>"

definition helloEntry :: StringEntry where
  "helloEntry =
     plainEntry\<lparr>comment := Some (str ''Greeting''),
       localizations := Some
         [(str ''en'', unit_of ''translated'' '' Hello there ''),
          (str ''fr'', unit_of ''needs_review'' ''Bonjour''),
          (str ''de'', unit_of ''translated'' ''Hallo'')]\<rparr>"

definition exampleCatalog :: XCStrings where
  "exampleCatalog =
     \<lparr>sourceLanguage = Some (str ''en''),
      strings =
        [(str ''Hello'', helloEntry),
         (str ''Old'',
            plainEntry\<lparr>extractionState := Some (str ''stale''), shouldTranslate := Some False\<rparr>),
         (str ''Brand'', plainEntry\<lparr>shouldTranslate := Some False\<rparr>),
         (str ''Bye'', plainEntry)]\<rparr>"

definition exampleLanguages :: "js_string list" where
  "exampleLanguages = [str ''fr'', str ''de'']"

definition freshCatalog :: XCStrings where
  "freshCatalog = \<lparr>sourceLanguage = None, strings = [(str ''Bye'', plainEntry)]\<rparr>"

definition helloCatalog :: XCStrings where
  "helloCatalog =
     \<lparr>sourceLanguage = None,
      strings = [(str ''Hello'', plainEntry\<lparr>localizations := Some []\<rparr>)]\<rparr>"

definition bonjourResponse :: "TranslationResult list" where
  "bonjourResponse = [\<lparr>key' = str ''Hello'', translations' = [(str ''fr'', str ''Bonjour'')]\<rparr>]"

definition reviewResponse :: "TranslationResult list" where
  "reviewResponse =
     [\<lparr>key' = str ''Ghost'', translations' = [(str ''fr'', str ''Fantome'')]\<rparr>,
      \<lparr>key' = str ''Hello'',
       translations' = [(str ''it'', str ''Ciao''), (str ''fr'', str ''Salut'')]\<rparr>]"




definition exampleMerged :: MergeState where
  "exampleMerged =
     \<lparr>updatedXcstringsData =
        \<lparr>sourceLanguage = Some (str ''en''),
         strings =
           [(str ''Hello'',
               plainEntry\<lparr>comment := Some (str ''Greeting''),
                 localizations := Some
                   [(str ''en'', unit_of ''translated'' '' Hello there ''),
                    (str ''fr'', unit_of ''translated'' ''Salut''),
                    (str ''de'', unit_of ''translated'' ''Hallo'')]\<rparr>),
            (str ''Brand'', plainEntry\<lparr>shouldTranslate := Some False\<rparr>),
            (str ''Bye'', plainEntry\<lparr>localizations := Some []\<rparr>)]\<rparr>,
      changes = \<lparr>added = [], updated = [str ''Hello (fr)''], staleRemoved = [str ''Old'']\<rparr>,
      warnings = [str ''Received translation for unknown key: Ghost''],
      objectPrototype = objectPrototypeNames\<rparr>"

definition exampleMergeStart :: MergeState where
  "exampleMergeStart =
     \<lparr>updatedXcstringsData = exampleCatalog,
      changes = \<lparr>added = [], updated = [], staleRemoved = []\<rparr>,
      warnings = [], objectPrototype = objectPrototypeNames\<rparr>"

definition helloInfo :: TranslationInfo where
  "helloInfo = \<lparr>languages = [str ''fr''], isNew = [str ''fr'' \<mapsto> False]\<rparr>"

definition ghostItem :: TranslationResult where
  "ghostItem = \<lparr>key' = str ''Ghost'', translations' = [(str ''fr'', str ''Fantome'')]\<rparr>"

definition brandItem :: TranslationResult where
  "brandItem = \<lparr>key' = str ''Brand'', translations' = [(str ''fr'', str ''Marque'')]\<rparr>"

section \<open>The catalog as objects in a store\<close>

text \<open>
  To speak about the caller's catalog object, the objects the analysis touches are
  placed in a store: a list of cells, an object's address being its index. A cell
  holds what the object holds, with addresses for the objects it refers to. A
  \<open>stringUnit\<close> object is never changed in place, only replaced, so it is kept as a
  value inside its localization's cell.
\<close>

type_synonym addr = nat

datatype cell =
    Root "js_string option" addr
  | Strings "(js_string \<times> addr) list"
  | Entry "js_string option" "bool option" "js_string option" "addr option"
  | Locs "(js_string \<times> addr) list"
  | Loc "StringUnit option"

type_synonym store = "cell list"

definition cellAt :: "store \<Rightarrow> addr \<Rightarrow> cell option" where
  "cellAt h a = (if a < length h then Some (h ! a) else None)"

text \<open>\<open>JSON.stringify\<close>: the value of the object graph below an address.\<close>

definition readLoc :: "store \<Rightarrow> addr \<Rightarrow> Localization option" where
  "readLoc h a = (case cellAt h a of Some (Loc su) \<Rightarrow> Some \<lparr>stringUnit = su\<rparr> | _ \<Rightarrow> None)"

definition readAll :: "(addr \<Rightarrow> 'v option) \<Rightarrow> (js_string \<times> addr) list \<Rightarrow> (js_string \<times> 'v) list option" where
  "readAll f refs = map_option (zip (map fst refs)) (those (map (\<lambda>(k, a). f a) refs))"

definition readLocs :: "store \<Rightarrow> addr \<Rightarrow> Localizations option" where
  "readLocs h a = (case cellAt h a of Some (Locs refs) \<Rightarrow> readAll (readLoc h) refs | _ \<Rightarrow> None)"

definition readEntry :: "store \<Rightarrow> addr \<Rightarrow> StringEntry option" where
  "readEntry h a =
     (case cellAt h a of
        Some (Entry c s x None) \<Rightarrow>
          Some \<lparr>comment = c, shouldTranslate = s, extractionState = x, localizations = None\<rparr>
      | Some (Entry c s x (Some la)) \<Rightarrow>
          map_option (\<lambda>locs. \<lparr>comment = c, shouldTranslate = s, extractionState = x,
                              localizations = Some locs\<rparr>) (readLocs h la)
      | _ \<Rightarrow> None)"

definition readCatalog :: "store \<Rightarrow> addr \<Rightarrow> XCStrings option" where
  "readCatalog h a =
     (case cellAt h a of
        Some (Root sl sa) \<Rightarrow>
          (case cellAt h sa of
             Some (Strings refs) \<Rightarrow>
               map_option (\<lambda>al. \<lparr>sourceLanguage = sl, strings = al\<rparr>) (readAll (readEntry h) refs)
           | _ \<Rightarrow> None)
      | _ \<Rightarrow> None)"

text \<open>\<open>JSON.parse\<close>: every object of the value is allocated anew, at the end of the store.\<close>

fun allocLocs :: "store \<Rightarrow> Localizations \<Rightarrow> store \<times> (js_string \<times> addr) list" where
  "allocLocs h [] = (h, [])"
| "allocLocs h ((l, loc) # rest) =
     (let (h', refs) = allocLocs (h @ [Loc (stringUnit loc)]) rest
      in (h', (l, length h) # refs))"

definition allocEntry :: "store \<Rightarrow> StringEntry \<Rightarrow> store \<times> addr" where
  "allocEntry h e =
     (case localizations e of
        None \<Rightarrow> (h @ [Entry (comment e) (shouldTranslate e) (extractionState e) None], length h)
      | Some locs \<Rightarrow>
          (let (h1, refs) = allocLocs h locs;
               h2 = h1 @ [Locs refs]
           in (h2 @ [Entry (comment e) (shouldTranslate e) (extractionState e) (Some (length h1))],
               length h2)))"

fun allocEntries :: "store \<Rightarrow> (js_string \<times> StringEntry) list \<Rightarrow> store \<times> (js_string \<times> addr) list" where
  "allocEntries h [] = (h, [])"
| "allocEntries h ((k, e) # rest) =
     (let (h1, ea) = allocEntry h e;
          (h2, refs) = allocEntries h1 rest
      in (h2, (k, ea) # refs))"

definition allocCatalog :: "store \<Rightarrow> XCStrings \<Rightarrow> store \<times> addr" where
  "allocCatalog h cat =
     (let (h1, refs) = allocEntries h (strings cat);
          h2 = h1 @ [Strings refs]
      in (h2 @ [Root (sourceLanguage cat) (length h1)], length h2))"

text \<open>Line 30: \<open>JSON.parse(JSON.stringify(xcstringsData))\<close>.\<close>

definition deepCopy :: "store \<Rightarrow> addr \<Rightarrow> (store \<times> addr) option" where
  "deepCopy h xcstringsData = map_option (allocCatalog h) (readCatalog h xcstringsData)"

text \<open>
  What the analysis returns besides the working copy, which is the object at the
  returned address.
\<close>

record AnalysisOutput =
  requestsOut :: "TranslationRequest list"
  changesOut :: TranslationChanges
  mapOut :: "js_string \<rightharpoonup> TranslationInfo"
  modifiedOut :: bool
  fallbackOut :: nat

text \<open>
  Lines 46--100 on the store. \<open>sa\<close> is the address of \<open>modifiedXcstringsData.strings\<close>,
  \<open>ea\<close> that of \<open>currentStringEntry\<close>. \<open>delete\<close> writes the strings object, the
  assignment of \<open>{}\<close> allocates an object and writes the entry object. The result is
  None only when an address does not hold the kind of object the code expects there.
\<close>

definition analyzeEntryS ::
  "js_string list \<Rightarrow> js_string option \<Rightarrow> addr \<Rightarrow> js_string \<Rightarrow> addr
     \<Rightarrow> store \<times> AnalysisOutput \<Rightarrow> (store \<times> AnalysisOutput) option" where
  "analyzeEntryS targetLangs sourceLanguageForText sa k ea s =
     (case s of (h, out) \<Rightarrow>
      case cellAt h ea of
        Some (Entry c sh x lref) \<Rightarrow>
          if x = Some (str ''stale'') then
            (case cellAt h sa of
               Some (Strings refs) \<Rightarrow>
                 Some (h[sa := Strings (AList.delete k refs)],
                       out\<lparr>modifiedOut := True,
                           changesOut := (changesOut out)
                             \<lparr>staleRemoved := staleRemoved (changesOut out) @ [k]\<rparr>\<rparr>)
             | _ \<Rightarrow> None)
          else if sh = Some False then Some (h, out)
          else
            (case (case lref of
                     None \<Rightarrow> Some ((h @ [Locs []])[ea := Entry c sh x (Some (length h))], [])
                   | Some la \<Rightarrow> map_option (Pair h) (readLocs h la)) of
               None \<Rightarrow> None
             | Some (h1, locs) \<Rightarrow>
                 let (languagesNeeded, isNewMap) = checkLanguages locs targetLangs ([], Map.empty)
                 in if length languagesNeeded > 0 then
                      let cand = sourceTextCandidate sourceLanguageForText locs
                      in Some (h1,
                           out\<lparr>fallbackOut :=
                                 (if useKeyFallback cand then fallbackOut out + 1
                                  else fallbackOut out),
                               requestsOut := requestsOut out @
                                 [\<lparr>key = k, text' = sourceText k cand,
                                   targetLanguages = languagesNeeded, comment' = c\<rparr>],
                               mapOut := (mapOut out)
                                 (k \<mapsto> \<lparr>languages = languagesNeeded, isNew = isNewMap\<rparr>)\<rparr>)
                    else Some (h1, out))
      | _ \<Rightarrow> None)"

definition analyzeKeyS ::
  "js_string list \<Rightarrow> js_string option \<Rightarrow> addr \<Rightarrow> js_string
     \<Rightarrow> store \<times> AnalysisOutput \<Rightarrow> (store \<times> AnalysisOutput) option" where
  "analyzeKeyS targetLangs sourceLanguageForText sa k s =
     (case cellAt (fst s) sa of
        Some (Strings refs) \<Rightarrow>
          (case map_of refs k of
             None \<Rightarrow> Some s
           | Some ea \<Rightarrow> analyzeEntryS targetLangs sourceLanguageForText sa k ea s)
      | _ \<Rightarrow> None)"

fun analyzeKeysS ::
  "js_string list \<Rightarrow> js_string option \<Rightarrow> addr \<Rightarrow> js_string list
     \<Rightarrow> store \<times> AnalysisOutput \<Rightarrow> (store \<times> AnalysisOutput) option" where
  "analyzeKeysS targetLangs sourceLanguageForText sa [] s = Some s"
| "analyzeKeysS targetLangs sourceLanguageForText sa (k # ks) s =
     (case analyzeKeyS targetLangs sourceLanguageForText sa k s of
        None \<Rightarrow> None
      | Some s' \<Rightarrow> analyzeKeysS targetLangs sourceLanguageForText sa ks s')"

definition initialOutput :: AnalysisOutput where
  "initialOutput =
     \<lparr>requestsOut = [], changesOut = \<lparr>added = [], updated = [], staleRemoved = []\<rparr>,
      mapOut = Map.empty, modifiedOut = False, fallbackOut = 0\<rparr>"

text \<open>
  The whole function on the store: the caller's catalog is the object at
  \<open>xcstringsData\<close>; the result is the store afterwards, the address of the working
  copy and the other fields of the result.
\<close>

definition analyzeStringsForTranslationS ::
  "store \<Rightarrow> addr \<Rightarrow> js_string list \<Rightarrow> js_string option
     \<Rightarrow> (store \<times> addr \<times> AnalysisOutput) option" where
  "analyzeStringsForTranslationS h xcstringsData targetLangs sourceLanguageForText =
     (case deepCopy h xcstringsData of
        None \<Rightarrow> None
      | Some (h0, modifiedXcstrings) \<Rightarrow>
          (case cellAt h0 modifiedXcstrings of
             Some (Root sl sa) \<Rightarrow>
               (case cellAt h0 sa of
                  Some (Strings refs) \<Rightarrow>
                    map_option (\<lambda>(h', out). (h', modifiedXcstrings, out))
                      (analyzeKeysS targetLangs sourceLanguageForText sa (map fst refs)
                         (h0, initialOutput))
                | _ \<Rightarrow> None)
           | _ \<Rightarrow> None))"

text \<open>
  The merge loop on the store (lines 85--110 of \<open>part_001\<close>). \<open>ea\<close> is the address
  of \<open>stringEntry\<close>; the assignment to \<open>stringUnit\<close> writes the localization's
  object. When the assignment throws, the loops end with the store as it is then. The
  store holds the objects of the catalogs; the members of \<open>Object.prototype\<close> are not
  among them, so an assignment to a property of such a member writes no cell. As in
  \<open>applyTranslation\<close>, the names of \<open>Object.prototype\<close> are part of the state.
\<close>

definition applyTranslationS ::
  "js_string \<Rightarrow> TranslationInfo \<Rightarrow> addr \<Rightarrow> js_string \<times> js_string
     \<Rightarrow> store \<times> TranslationChanges \<times> js_string list
     \<Rightarrow> (error + store \<times> TranslationChanges \<times> js_string list) option" where
  "applyTranslationS k translationInfo ea p s =
     (case p of (lang, translatedValue) \<Rightarrow>
      case s of (h, ch, protoNames) \<Rightarrow>
        if lang \<in> set (languages translationInfo) then
          (case cellAt h ea of
             Some (Entry c sh x None) \<Rightarrow> Some (Inl TypeError)
           | Some (Entry c sh x (Some la)) \<Rightarrow>
               (case cellAt h la of
                  Some (Locs refs) \<Rightarrow>
                    (case getProperty protoNames refs lang of
                       Undefined \<Rightarrow> Some (Inl TypeError)
                     | Inherited \<Rightarrow>
                         Some (Inr (h, recordChange k translationInfo lang ch,
                                    if lang = str ''__proto__''
                                    then List.insert (str ''stringUnit'') protoNames
                                    else protoNames))
                     | Own ca \<Rightarrow>
                         (case cellAt h ca of
                            Some (Loc su) \<Rightarrow>
                              Some (Inr (h[ca := Loc (Some \<lparr>state = str ''translated'',
                                                           value' = Some translatedValue\<rparr>)],
                                    recordChange k translationInfo lang ch, protoNames))
                          | _ \<Rightarrow> None))
                | _ \<Rightarrow> None)
           | _ \<Rightarrow> None)
        else Some (Inr s))"

fun applyTranslationsS ::
  "js_string \<Rightarrow> TranslationInfo \<Rightarrow> addr \<Rightarrow> (js_string \<times> js_string) list
     \<Rightarrow> store \<times> TranslationChanges \<times> js_string list
     \<Rightarrow> (store \<times> TranslationChanges \<times> js_string list \<times> error option) option" where
  "applyTranslationsS k translationInfo ea [] (h, ch, protoNames) = Some (h, ch, protoNames, None)"
| "applyTranslationsS k translationInfo ea (p # ps) (h, ch, protoNames) =
     (case applyTranslationS k translationInfo ea p (h, ch, protoNames) of
        None \<Rightarrow> None
      | Some (Inl err) \<Rightarrow> Some (h, ch, protoNames, Some err)
      | Some (Inr s') \<Rightarrow> applyTranslationsS k translationInfo ea ps s')"

fun mergeTranslationsS ::
  "(js_string \<rightharpoonup> TranslationInfo) \<Rightarrow> addr \<Rightarrow> TranslationResult list
     \<Rightarrow> store \<times> TranslationChanges \<times> js_string list \<times> js_string list
     \<Rightarrow> (store \<times> TranslationChanges \<times> js_string list \<times> error option) option" where
  "mergeTranslationsS stm sa [] (h, ch, ws, protoNames) = Some (h, ch, ws, None)"
| "mergeTranslationsS stm sa (translationResult # rest) (h, ch, ws, protoNames) =
     (case cellAt h sa of
        Some (Strings refs) \<Rightarrow>
          (case (map_of refs (key' translationResult), stm (key' translationResult)) of
             (Some ea, Some translationInfo) \<Rightarrow>
               (case applyTranslationsS (key' translationResult) translationInfo ea
                       (translations' translationResult) (h, ch, protoNames) of
                  None \<Rightarrow> None
                | Some (h', ch', protoNames', Some err) \<Rightarrow> Some (h', ch', ws, Some err)
                | Some (h', ch', protoNames', None) \<Rightarrow>
                    mergeTranslationsS stm sa rest (h', ch', ws, protoNames'))
           | _ \<Rightarrow>
               mergeTranslationsS stm sa rest
                 (h, ch, ws @ [unknownKeyWarning (key' translationResult)], protoNames))
      | _ \<Rightarrow> None)"

text \<open>
  Lines 67--111 on the store: the analysis of the caller's catalog and, when there is
  a request, the merge of the provider's answer into the working copy.
\<close>

definition runTranslationS ::
  "store \<Rightarrow> addr \<Rightarrow> js_string list \<Rightarrow> js_string option \<Rightarrow> TranslationResult list
     \<Rightarrow> (store \<times> addr \<times> TranslationChanges \<times> js_string list \<times> error option) option" where
  "runTranslationS h currentXcstringsData targetLangs sourceLanguageInput batchTranslations =
     (case analyzeStringsForTranslationS h currentXcstringsData targetLangs sourceLanguageInput of
        None \<Rightarrow> None
      | Some (h1, updatedXcstrings, out) \<Rightarrow>
          if length (requestsOut out) > 0 then
            (case cellAt h1 updatedXcstrings of
               Some (Root sl sa) \<Rightarrow>
                 map_option (\<lambda>(h2, ch, ws, err). (h2, updatedXcstrings, ch, ws, err))
                   (mergeTranslationsS (mapOut out) sa batchTranslations
                      (h1, changesOut out, [], objectPrototypeNames))
             | _ \<Rightarrow> None)
          else Some (h1, updatedXcstrings, changesOut out, [], None))"

definition callerStore :: store where
  "callerStore = fst (allocCatalog [] exampleCatalog)"

definition callerCatalog :: addr where
  "callerCatalog = snd (allocCatalog [] exampleCatalog)"

text \<open>
  The invariant of the objects allocated from address \<open>n\<close> on: each refers only to
  objects allocated from \<open>n\<close> on, of the kind its field expects.
\<close>

datatype kind = KRoot | KStrings | KEntry | KLocs | KLoc

fun kindOf :: "cell \<Rightarrow> kind" where
  "kindOf (Root sl sa) = KRoot"
| "kindOf (Strings refs) = KStrings"
| "kindOf (Entry c s x l) = KEntry"
| "kindOf (Locs refs) = KLocs"
| "kindOf (Loc su) = KLoc"

definition points :: "nat \<Rightarrow> store \<Rightarrow> kind \<Rightarrow> addr \<Rightarrow> bool" where
  "points n h kd a \<longleftrightarrow> n \<le> a \<and> a < length h \<and> kindOf (h ! a) = kd"

fun cell_ok :: "nat \<Rightarrow> store \<Rightarrow> cell \<Rightarrow> bool" where
  "cell_ok n h (Root sl sa) = points n h KStrings sa"
| "cell_ok n h (Strings refs) = list_all (\<lambda>(k, a). points n h KEntry a) refs"
| "cell_ok n h (Entry c s x l) = (case l of None \<Rightarrow> True | Some la \<Rightarrow> points n h KLocs la)"
| "cell_ok n h (Locs refs) = list_all (\<lambda>(l, a). points n h KLoc a) refs"
| "cell_ok n h (Loc su) = True"

definition region_ok :: "nat \<Rightarrow> store \<Rightarrow> bool" where
  "region_ok n h \<longleftrightarrow> (\<forall>a. n \<le> a \<and> a < length h \<longrightarrow> cell_ok n h (h ! a))"

text \<open>
  \<open>frame n h h'\<close>: the store \<open>h'\<close> has the objects of \<open>h\<close>, those below \<open>n\<close>
  unchanged and the others of the kind they had.
\<close>

definition frame :: "nat \<Rightarrow> store \<Rightarrow> store \<Rightarrow> bool" where
  "frame n h h' \<longleftrightarrow>
     length h \<le> length h' \<and> (\<forall>a < n. a < length h \<longrightarrow> h' ! a = h ! a) \<and>
     (\<forall>a < length h. kindOf (h' ! a) = kindOf (h ! a))"

text \<open>Reading is not affected by a write to an object that the reading does not visit.\<close>

definition keeps :: "store \<Rightarrow> store \<Rightarrow> addr set \<Rightarrow> bool" where
  "keeps h h' X \<longleftrightarrow> (\<forall>b c. b \<notin> X \<longrightarrow> cellAt h b = Some c \<longrightarrow> cellAt h' b = Some c)"

definition no_locs_at :: "store \<Rightarrow> addr set \<Rightarrow> bool" where
  "no_locs_at h X \<longleftrightarrow> (\<forall>x \<in> X. \<forall>c. cellAt h x = Some c \<longrightarrow> kindOf c \<noteq> KLocs \<and> kindOf c \<noteq> KLoc)"

text \<open>
  The simulation: the working copy in the store reads as the working copy of the value
  model, the addresses of its entries are distinct, and the other outputs are equal.
\<close>

definition copy_reads :: "addr \<Rightarrow> addr \<Rightarrow> store \<Rightarrow> XCStrings \<Rightarrow> bool" where
  "copy_reads m sa h cat \<longleftrightarrow>
     (\<exists>refs. cellAt h m = Some (Root (sourceLanguage cat) sa) \<and>
        cellAt h sa = Some (Strings refs) \<and>
        readAll (readEntry h) refs = Some (strings cat) \<and>
        distinct (map fst refs) \<and> distinct (map snd refs))"

definition outputs_match :: "AnalysisOutput \<Rightarrow> StringAnalysisResult \<Rightarrow> bool" where
  "outputs_match out st \<longleftrightarrow>
     requestsOut out = translationRequests st \<and> changesOut out = translationChanges st \<and>
     mapOut out = stringTranslationMap st \<and> modifiedOut out = xcstringsModified st \<and>
     fallbackOut out = fallbackToKeyCount st"

section \<open>Lemmas about the analysis\<close>

lemmas analysis_defs =
  analyzeStringsForTranslation_def initialResult_def analyzeKey_def analyzeEntry_def
  set_strings_def is_stale_def needsTranslationForLang_def targetStringUnit_def
  targetLocalization_def getProperty_def objectPrototypeNames_def
  isMissingOrEmpty_def isNeedsReview_def sourceTextCandidate_def useKeyFallback_def
  sourceText_def

lemmas merge_defs =
  mergeBatch_def mergeTranslationResult_def applyTranslation_def recordChange_def
  getProperty_def objectPrototypeNames_def warn_def unknownKeyWarning_def changeKey_def

lemmas analysis0_defs =
  analyzeStringsForTranslation0_def analyzeKey0_def analyzeEntry0_def is_stale_def
  needsTranslationForLang0_def getProperty_def objectPrototypeNames_def arrayIndex_def
  sourceTextCandidate_def useKeyFallback_def sourceText_def

lemma dropWhile_all_iff: "(\<forall>x \<in> set (dropWhile P xs). P x) \<longleftrightarrow> (\<forall>x \<in> set xs. P x)"
  by (induction xs) auto

lemma trim_empty_iff: "trim v = [] \<longleftrightarrow> (\<forall>c \<in> set v. isWhiteSpace c)"
  by (simp add: trim_def dropWhile_all_iff)

lemma isMissingOrEmpty_iff:
  "isMissingOrEmpty u \<longleftrightarrow>
     (case u of None \<Rightarrow> True
      | Some su \<Rightarrow> (case value' su of None \<Rightarrow> True | Some v \<Rightarrow> \<forall>c \<in> set v. isWhiteSpace c))"
  by (auto simp: isMissingOrEmpty_def trim_empty_iff split: option.splits)

lemma checkLanguages_fst:
  "fst (checkLanguages locs langs (acc, m)) = acc @ filter (needsTranslationForLang locs) langs"
  by (induction langs arbitrary: acc m) auto


lemma targetStringUnit_own:
  "targetStringUnit locs lang =
     (case map_of locs lang of None \<Rightarrow> None | Some l \<Rightarrow> stringUnit l)"
  by (simp add: targetStringUnit_def targetLocalization_def getProperty_def split: option.splits)


lemma checkLanguages_eq:
  "checkLanguages locs langs ([], Map.empty) =
     (filter (needsTranslationForLang locs) langs, snd (checkLanguages locs langs ([], Map.empty)))"
  using checkLanguages_fst[of locs langs "[]" Map.empty]
  by (cases "checkLanguages locs langs ([], Map.empty)") simp

lemma analyzeEntry_requests:
  "translationRequests (analyzeEntry L h k e st) =
     translationRequests st @ (if emits L e then [requestFor L h k e] else [])"
  unfolding analyzeEntry_def
  apply (subst checkLanguages_eq)
  by (auto simp: set_strings_def emits_def skipped_def requestFor_def
      neededLanguages_def locs_of_def Let_def split: option.splits)

lemma analyzeEntry_map:
  "stringTranslationMap (analyzeEntry L h k e st) =
     (if emits L e then (stringTranslationMap st)(k \<mapsto> infoFor L e) else stringTranslationMap st)"
  unfolding analyzeEntry_def
  apply (subst checkLanguages_eq)
  by (auto simp: set_strings_def emits_def skipped_def infoFor_def
      neededLanguages_def locs_of_def Let_def split: option.splits)

lemma analyzeEntry_staleRemoved:
  "staleRemoved (translationChanges (analyzeEntry L h k e st)) =
     staleRemoved (translationChanges st) @ (if is_stale e then [k] else [])"
  by (auto simp: analyzeEntry_def set_strings_def Let_def split: option.splits prod.splits)



lemma analyzeEntry_modified:
  "xcstringsModified (analyzeEntry L h k e st) \<longleftrightarrow> xcstringsModified st \<or> is_stale e"
  by (auto simp: analyzeEntry_def set_strings_def Let_def split: option.splits prod.splits)

lemma analyzeEntry_count:
  "fallbackToKeyCount (analyzeEntry L h k e st) =
     fallbackToKeyCount st + (if fallsBack L h e then 1 else 0)"
  unfolding analyzeEntry_def
  apply (subst checkLanguages_eq)
  by (auto simp: set_strings_def emits_def skipped_def fallsBack_def
      neededLanguages_def locs_of_def Let_def split: option.splits)

lemma analyzeEntry_sourceLanguage:
  "sourceLanguage (modifiedXcstringsData (analyzeEntry L h k e st)) =
     sourceLanguage (modifiedXcstringsData st)"
  by (auto simp: analyzeEntry_def set_strings_def Let_def split: option.splits prod.splits)

lemma analyzeEntry_strings:
  "strings (modifiedXcstringsData (analyzeEntry L h k e st)) =
     (if is_stale e then AList.delete k (strings (modifiedXcstringsData st))
      else if shouldTranslate e = Some False then strings (modifiedXcstringsData st)
      else (case localizations e of
              None \<Rightarrow> AList.update k (e\<lparr>localizations := Some []\<rparr>) (strings (modifiedXcstringsData st))
            | Some ls \<Rightarrow> strings (modifiedXcstringsData st)))"
  by (auto simp: analyzeEntry_def set_strings_def Let_def
      split: option.splits prod.splits)

lemma delete_middle:
  "k \<notin> fst ` set pre \<Longrightarrow> k \<notin> fst ` set post \<Longrightarrow>
     AList.delete k (pre @ (k, e) # post) = pre @ post"
  by (induction pre) (force simp: AList.delete_eq filter_id_conv)+

lemma update_middle:
  "k \<notin> fst ` set pre \<Longrightarrow> AList.update k v (pre @ (k, e) # post) = pre @ (k, v) # post"
  by (induction pre) auto

lemma analyzeEntries_Nil: "analyzeEntries L h [] st = st"
  by (simp add: analyzeEntries_def)

lemma analyzeEntries_Cons:
  "analyzeEntries L h ((k, e) # l) st = analyzeEntries L h l (analyzeEntry L h k e st)"
  by (simp add: analyzeEntries_def)

lemma fst_set_remaining: "fst ` set (remaining l) \<subseteq> fst ` set l"
  by (force simp: remaining_def)

lemma analyzeEntry_strings_middle:
  assumes "distinct (map fst (pre @ (k, e) # post))"
    and "strings (modifiedXcstringsData st) = pre @ (k, e) # post"
  shows "strings (modifiedXcstringsData (analyzeEntry L h k e st)) = pre @ remaining [(k, e)] @ post"
proof -
  from assms(1) have "k \<notin> fst ` set pre" "k \<notin> fst ` set post" by auto
  then show ?thesis
    using assms(2)
    by (auto simp: analyzeEntry_strings remaining_def normalized_def delete_middle update_middle
        split: option.splits)
qed

lemma analyzeEntries_strings:
  "distinct (map fst (pre @ l)) \<Longrightarrow> strings (modifiedXcstringsData st) = pre @ l \<Longrightarrow>
     strings (modifiedXcstringsData (analyzeEntries L h l st)) = pre @ remaining l"
proof (induction l arbitrary: pre st)
  case Nil
  then show ?case by (simp add: analyzeEntries_Nil remaining_def)
next
  case (Cons p l)
  obtain k e where p: "p = (k, e)" by (cases p)
  have s1: "strings (modifiedXcstringsData (analyzeEntry L h k e st)) = (pre @ remaining [(k, e)]) @ l"
    using analyzeEntry_strings_middle[of pre k e l st] Cons.prems by (simp add: p)
  have d1: "distinct (map fst ((pre @ remaining [(k, e)]) @ l))"
    using Cons.prems(1) by (auto simp: p remaining_def)
  show ?case
    using Cons.IH[OF d1 s1] by (simp add: p analyzeEntries_Cons remaining_def)
qed

lemma fold_analyzeKey:
  "distinct (map fst (pre @ l)) \<Longrightarrow> strings (modifiedXcstringsData st) = pre @ l \<Longrightarrow>
     fold (analyzeKey L h) (map fst l) st = analyzeEntries L h l st"
proof (induction l arbitrary: pre st)
  case Nil
  then show ?case by (simp add: analyzeEntries_Nil)
next
  case (Cons p l)
  obtain k e where p: "p = (k, e)" by (cases p)
  have "k \<notin> fst ` set pre" using Cons.prems(1) by (auto simp: p)
  then have look: "map_of (strings (modifiedXcstringsData st)) k = Some e"
    using Cons.prems(2) by (simp add: p map_add_def map_of_eq_None_iff[THEN iffD2])
  have s1: "strings (modifiedXcstringsData (analyzeEntry L h k e st)) = (pre @ remaining [(k, e)]) @ l"
    using analyzeEntry_strings_middle[of pre k e l st] Cons.prems by (simp add: p)
  have d1: "distinct (map fst ((pre @ remaining [(k, e)]) @ l))"
    using Cons.prems(1) by (auto simp: p remaining_def)
  show ?case
    using Cons.IH[OF d1 s1] look by (simp add: p analyzeEntries_Cons analyzeKey_def)
qed

lemma analyzeEntries_requests:
  "translationRequests (analyzeEntries L h l st) =
     translationRequests st @
       map (\<lambda>(k, e). requestFor L h k e) (filter (\<lambda>(k, e). emits L e) l)"
  by (induction l arbitrary: st)
     (auto simp: analyzeEntries_Nil analyzeEntries_Cons analyzeEntry_requests)

lemma analyzeEntries_staleRemoved:
  "staleRemoved (translationChanges (analyzeEntries L h l st)) =
     staleRemoved (translationChanges st) @ map fst (filter (\<lambda>(k, e). is_stale e) l)"
  by (induction l arbitrary: st)
     (auto simp: analyzeEntries_Nil analyzeEntries_Cons analyzeEntry_staleRemoved)



lemma analyzeEntries_modified:
  "xcstringsModified (analyzeEntries L h l st) \<longleftrightarrow>
     xcstringsModified st \<or> (\<exists>(k, e) \<in> set l. is_stale e)"
proof (induction l arbitrary: st)
  case Nil
  then show ?case by (simp add: analyzeEntries_Nil)
next
  case (Cons p l)
  obtain k e where p: "p = (k, e)" by (cases p)
  show ?case
    unfolding p analyzeEntries_Cons Cons.IH analyzeEntry_modified by auto
qed

lemma analyzeEntries_count:
  "fallbackToKeyCount (analyzeEntries L h l st) =
     fallbackToKeyCount st + length (filter (\<lambda>(k, e). fallsBack L h e) l)"
  by (induction l arbitrary: st)
     (auto simp: analyzeEntries_Nil analyzeEntries_Cons analyzeEntry_count)

lemma analyzeEntries_sourceLanguage:
  "sourceLanguage (modifiedXcstringsData (analyzeEntries L h l st)) =
     sourceLanguage (modifiedXcstringsData st)"
  by (induction l arbitrary: st)
     (auto simp: analyzeEntries_Nil analyzeEntries_Cons analyzeEntry_sourceLanguage)

lemma analyzeEntries_map:
  "distinct (map fst l) \<Longrightarrow>
     stringTranslationMap (analyzeEntries L h l st) k =
       (case map_of l k of
          None \<Rightarrow> stringTranslationMap st k
        | Some e \<Rightarrow> if emits L e then Some (infoFor L e) else stringTranslationMap st k)"
proof (induction l arbitrary: st)
  case Nil
  then show ?case by (simp add: analyzeEntries_Nil)
next
  case (Cons p l)
  obtain k0 e0 where p: "p = (k0, e0)" by (cases p)
  from Cons.prems have d: "distinct (map fst l)" and n: "k0 \<notin> fst ` set l" by (auto simp: p)
  from n have none: "map_of l k0 = None" by (simp add: map_of_eq_None_iff)
  show ?case
    using Cons.IH[OF d, of "analyzeEntry L h k0 e0 st"] none
    by (auto simp: p analyzeEntries_Cons analyzeEntry_map split: option.splits)
qed

text \<open>The result of the analysis, field by field, for a catalog whose keys are distinct.\<close>

lemma analyze_entries:
  "distinct (map fst (strings cat)) \<Longrightarrow>
     analyzeStringsForTranslation cat L h = analyzeEntries L h (strings cat) (initialResult cat)"
  unfolding analyzeStringsForTranslation_def
  using fold_analyzeKey[of "[]" "strings cat" "initialResult cat" L h]
  by (simp add: initialResult_def)

lemma analyze_requests:
  "distinct (map fst (strings cat)) \<Longrightarrow>
     translationRequests (analyzeStringsForTranslation cat L h) =
       map (\<lambda>(k, e). requestFor L h k e) (filter (\<lambda>(k, e). emits L e) (strings cat))"
  by (simp add: analyze_entries analyzeEntries_requests initialResult_def)

lemma analyze_staleRemoved:
  "distinct (map fst (strings cat)) \<Longrightarrow>
     staleRemoved (translationChanges (analyzeStringsForTranslation cat L h)) =
       map fst (filter (\<lambda>(k, e). is_stale e) (strings cat))"
  by (simp add: analyze_entries analyzeEntries_staleRemoved initialResult_def)



lemma analyze_modified:
  "distinct (map fst (strings cat)) \<Longrightarrow>
     xcstringsModified (analyzeStringsForTranslation cat L h) \<longleftrightarrow>
       (\<exists>(k, e) \<in> set (strings cat). is_stale e)"
  by (simp add: analyze_entries analyzeEntries_modified initialResult_def)

lemma analyze_count:
  "distinct (map fst (strings cat)) \<Longrightarrow>
     fallbackToKeyCount (analyzeStringsForTranslation cat L h) =
       length (filter (\<lambda>(k, e). fallsBack L h e) (strings cat))"
  by (simp add: analyze_entries analyzeEntries_count initialResult_def)

lemma analyze_map:
  "distinct (map fst (strings cat)) \<Longrightarrow>
     stringTranslationMap (analyzeStringsForTranslation cat L h) k =
       (case map_of (strings cat) k of
          None \<Rightarrow> None
        | Some e \<Rightarrow> if emits L e then Some (infoFor L e) else None)"
  by (simp add: analyze_entries analyzeEntries_map initialResult_def split: option.splits)

lemma analyze_strings:
  "distinct (map fst (strings cat)) \<Longrightarrow>
     strings (modifiedXcstringsData (analyzeStringsForTranslation cat L h)) =
       remaining (strings cat)"
  using analyzeEntries_strings[of "[]" "strings cat" "initialResult cat" L h]
  by (simp add: analyze_entries initialResult_def)

lemma distinct_remaining: "distinct (map fst l) \<Longrightarrow> distinct (map fst (remaining l))"
proof -
  have "map fst (remaining l) = map fst (filter (\<lambda>(k, e). \<not> is_stale e) l)"
    by (simp add: remaining_def case_prod_unfold)
  then show "distinct (map fst l) \<Longrightarrow> distinct (map fst (remaining l))"
    by (simp add: distinct_map_filter)
qed

lemma distinct_exampleCatalog: "distinct (map fst (strings exampleCatalog))"
  by (simp add: exampleCatalog_def str_def)

lemma count_list_distinct: "distinct xs \<Longrightarrow> x \<in> set xs \<Longrightarrow> count_list xs x = 1"
  by (induction xs) auto

lemma is_stale_normalized: "is_stale (normalized e) \<longleftrightarrow> is_stale e"
  by (simp add: is_stale_def normalized_def split: option.splits)

lemma remaining_not_stale: "(k, e) \<in> set (remaining l) \<Longrightarrow> \<not> is_stale e"
  by (auto simp: remaining_def is_stale_normalized)

lemma map_of_remaining:
  "distinct (map fst l) \<Longrightarrow> (k, e) \<in> set l \<Longrightarrow>
     map_of (remaining l) k = (if is_stale e then None else Some (normalized e))"
proof (induction l)
  case Nil
  then show ?case by simp
next
  case (Cons p l)
  then show ?case
    by (cases p) (force simp: remaining_def map_of_eq_None_iff image_iff)
qed

lemma emits_request_key:
  "q \<in> set (map (\<lambda>(k, e). requestFor L h k e) (filter (\<lambda>(k, e). emits L e) l)) \<Longrightarrow>
     \<exists>e. (key q, e) \<in> set l \<and> emits L e \<and> q = requestFor L h (key q) e"
  by (auto simp: requestFor_def)

section \<open>Stale removal\<close>

text \<open>
  C3. Stale removal is exhaustive: after the analysis no entry of the working copy has
  extractionState stale; the key of every stale entry of the input occurs exactly once
  in staleRemoved, is no longer a key of the working copy, has no translation request
  and no entry in the need index (stringTranslationMap). The keys of a catalog are
  distinct, as the properties of a JSON object are.
\<close>

theorem stale_removal_exhaustive:
  fixes cat L h
  defines "r \<equiv> analyzeStringsForTranslation cat L h"
  assumes d: "distinct (map fst (strings cat))"
  shows "(\<forall>(k, e) \<in> set (strings (modifiedXcstringsData r)).
            extractionState e \<noteq> Some (str ''stale'')) \<and>
         (\<forall>(k, e) \<in> set (strings cat). extractionState e = Some (str ''stale'') \<longrightarrow>
            count_list (staleRemoved (translationChanges r)) k = 1 \<and>
            map_of (strings (modifiedXcstringsData r)) k = None \<and>
            k \<notin> key ` set (translationRequests r) \<and>
            stringTranslationMap r k = None)"
proof (intro conjI ballI)
  fix p assume "p \<in> set (strings (modifiedXcstringsData r))"
  then show "case p of (k, e) \<Rightarrow> extractionState e \<noteq> Some (str ''stale'')"
    using remaining_not_stale[of "fst p" "snd p" "strings cat"] d
    by (simp add: r_def analyze_strings is_stale_def case_prod_unfold)
next
  fix p assume p: "p \<in> set (strings cat)"
  obtain k e where ke: "p = (k, e)" by (cases p)
  have "count_list (staleRemoved (translationChanges r)) k = 1 \<and>
        map_of (strings (modifiedXcstringsData r)) k = None \<and>
        k \<notin> key ` set (translationRequests r) \<and>
        stringTranslationMap r k = None" if st: "is_stale e"
  proof (intro conjI)
    have "distinct (map fst (filter (\<lambda>(k, e). is_stale e) (strings cat)))"
      using d by (simp add: distinct_map_filter)
    moreover have "k \<in> set (map fst (filter (\<lambda>(k, e). is_stale e) (strings cat)))"
      using p st by (force simp: ke)
    ultimately show "count_list (staleRemoved (translationChanges r)) k = 1"
      using d by (simp add: r_def analyze_staleRemoved count_list_distinct)
    show "map_of (strings (modifiedXcstringsData r)) k = None"
      using d p st map_of_remaining[of "strings cat" k e]
      by (simp add: r_def analyze_strings ke)
    have look: "map_of (strings cat) k = Some e"
      using d p by (simp add: ke)
    show "stringTranslationMap r k = None"
      using d st look by (simp add: r_def analyze_map emits_def skipped_def)
    show "k \<notin> key ` set (translationRequests r)"
    proof
      assume "k \<in> key ` set (translationRequests r)"
      then obtain q where q: "q \<in> set (translationRequests r)" "key q = k" by auto
      from q(1) obtain e' where "(key q, e') \<in> set (strings cat)" "emits L e'"
        using emits_request_key[of q L h "strings cat"] d by (auto simp: r_def analyze_requests)
      with q(2) d p have "e' = e" by (metis ke eq_key_imp_eq_value)
      with \<open>emits L e'\<close> st show False by (simp add: emits_def skipped_def)
    qed
  qed
  then show "case p of (k, e) \<Rightarrow> extractionState e = Some (str ''stale'') \<longrightarrow>
            count_list (staleRemoved (translationChanges r)) k = 1 \<and>
            map_of (strings (modifiedXcstringsData r)) k = None \<and>
            k \<notin> key ` set (translationRequests r) \<and>
            stringTranslationMap r k = None"
    by (simp add: ke is_stale_def)
qed


theorem stale_removal_exhaustive_witness:
  "distinct (map fst (strings exampleCatalog)) \<and>
   count_list (staleRemoved (translationChanges
       (analyzeStringsForTranslation exampleCatalog exampleLanguages None))) (str ''Old'') = 1 \<and>
   map_of (strings (modifiedXcstringsData
       (analyzeStringsForTranslation exampleCatalog exampleLanguages None))) (str ''Old'') = None \<and>
   str ''Old'' \<notin> key ` set (translationRequests
       (analyzeStringsForTranslation exampleCatalog exampleLanguages None)) \<and>
   stringTranslationMap
       (analyzeStringsForTranslation exampleCatalog exampleLanguages None) (str ''Old'') = None"
proof -
  have m: "(str ''Old'',
            plainEntry\<lparr>extractionState := Some (str ''stale''), shouldTranslate := Some False\<rparr>)
           \<in> set (strings exampleCatalog)"
    by (simp add: exampleCatalog_def)
  show ?thesis
    using stale_removal_exhaustive[OF distinct_exampleCatalog, of exampleLanguages None] m
    by (fastforce simp: plainEntry_def distinct_exampleCatalog)
qed

lemma request_for_key:
  assumes d: "distinct (map fst (strings cat))"
    and q: "q \<in> set (translationRequests (analyzeStringsForTranslation cat L h))"
    and m: "(key q, e) \<in> set (strings cat)"
  shows "emits L e \<and> q = requestFor L h (key q) e"
proof -
  from q obtain e' where e': "(key q, e') \<in> set (strings cat)" "emits L e'"
      "q = requestFor L h (key q) e'"
    using emits_request_key[of q L h "strings cat"] d by (auto simp: analyze_requests)
  from e'(1) m d have "e' = e" by (metis eq_key_imp_eq_value)
  with e' show ?thesis by simp
qed

lemma emitted_request:
  assumes d: "distinct (map fst (strings cat))"
    and m: "(k, e) \<in> set (strings cat)" and e: "emits L e"
  shows "requestFor L h k e \<in> set (translationRequests (analyzeStringsForTranslation cat L h))"
  using m e by (force simp: analyze_requests[OF d])

section \<open>The modified flag\<close>

text \<open>
  C9. The flag xcstringsModified returned by the analysis is true if and only if a stale
  entry was removed (staleRemoved is not empty, that is, the input has a stale entry).
  The loop body leaves the flag as it was for every entry that is not stale, whether or
  not it materializes the localizations or finds languages to translate.
\<close>

theorem modified_iff_stale_removed:
  fixes cat L h
  defines "r \<equiv> analyzeStringsForTranslation cat L h"
  assumes d: "distinct (map fst (strings cat))"
  shows "(xcstringsModified r \<longleftrightarrow> staleRemoved (translationChanges r) \<noteq> []) \<and>
         (xcstringsModified r \<longleftrightarrow>
            (\<exists>(k, e) \<in> set (strings cat). extractionState e = Some (str ''stale''))) \<and>
         (\<forall>k e st. extractionState e \<noteq> Some (str ''stale'') \<longrightarrow>
            xcstringsModified (analyzeEntry L h k e st) = xcstringsModified st)"
proof (intro conjI allI impI)
  show "xcstringsModified r \<longleftrightarrow> staleRemoved (translationChanges r) \<noteq> []"
    using d by (auto simp: r_def analyze_modified analyze_staleRemoved filter_empty_conv)
  show "xcstringsModified r \<longleftrightarrow>
          (\<exists>(k, e) \<in> set (strings cat). extractionState e = Some (str ''stale''))"
    using d by (simp add: r_def analyze_modified is_stale_def)
  fix k and e :: StringEntry and st
  assume "extractionState e \<noteq> Some (str ''stale'')"
  then show "xcstringsModified (analyzeEntry L h k e st) = xcstringsModified st"
    by (simp add: analyzeEntry_modified is_stale_def)
qed

lemma distinct_freshCatalog: "distinct (map fst (strings freshCatalog))"
  by (simp add: freshCatalog_def)

theorem modified_iff_stale_removed_witness:
  "distinct (map fst (strings exampleCatalog)) \<and>
   xcstringsModified (analyzeStringsForTranslation exampleCatalog exampleLanguages None) \<and>
   distinct (map fst (strings freshCatalog)) \<and>
   \<not> xcstringsModified (analyzeStringsForTranslation freshCatalog exampleLanguages None) \<and>
   length (translationRequests (analyzeStringsForTranslation freshCatalog exampleLanguages None)) = 1 \<and>
   map_of (strings (modifiedXcstringsData
      (analyzeStringsForTranslation freshCatalog exampleLanguages None))) (str ''Bye'')
     = Some (plainEntry\<lparr>localizations := Some []\<rparr>)"
proof -
  have "\<exists>(k, e) \<in> set (strings exampleCatalog). extractionState e = Some (str ''stale'')"
    by (simp add: exampleCatalog_def plainEntry_def)
  then have a: "xcstringsModified (analyzeStringsForTranslation exampleCatalog exampleLanguages None)"
    using modified_iff_stale_removed[OF distinct_exampleCatalog, of exampleLanguages None]
    by blast
  have "\<not> (\<exists>(k, e) \<in> set (strings freshCatalog). extractionState e = Some (str ''stale''))"
    by (simp add: freshCatalog_def plainEntry_def)
  then have b: "\<not> xcstringsModified (analyzeStringsForTranslation freshCatalog exampleLanguages None)"
    using modified_iff_stale_removed[OF distinct_freshCatalog, of exampleLanguages None]
    by blast
  have c: "length (translationRequests
             (analyzeStringsForTranslation freshCatalog exampleLanguages None)) = 1"
    by (subst analyze_requests[OF distinct_freshCatalog])
       (simp add: freshCatalog_def plainEntry_def
        emits_def skipped_def is_stale_def neededLanguages_def locs_of_def exampleLanguages_def
        needsTranslationForLang_def targetStringUnit_own isMissingOrEmpty_def)
  have e: "map_of (strings (modifiedXcstringsData
      (analyzeStringsForTranslation freshCatalog exampleLanguages None))) (str ''Bye'')
     = Some (plainEntry\<lparr>localizations := Some []\<rparr>)"
    by (subst analyze_strings[OF distinct_freshCatalog])
       (simp add: freshCatalog_def plainEntry_def
        remaining_def is_stale_def normalized_def)
  show ?thesis
    using a b c e distinct_exampleCatalog distinct_freshCatalog by simp
qed

section \<open>Stale entries that are opted out\<close>

text \<open>
  C10. Stale removal takes precedence over opt-out: an entry whose extractionState is
  stale is deleted from the working copy and its key recorded in staleRemoved even when
  its shouldTranslate is false; for a stale entry the loop body is the deletion, whatever
  shouldTranslate holds (in the earlier copy of the analyzer as well).
\<close>

theorem stale_precedes_opt_out:
  fixes cat L h
  defines "r \<equiv> analyzeStringsForTranslation cat L h"
  assumes d: "distinct (map fst (strings cat))"
    and m: "(k, e) \<in> set (strings cat)"
    and s: "extractionState e = Some (str ''stale'')"
    and o: "shouldTranslate e = Some False"
  shows "k \<in> set (staleRemoved (translationChanges r)) \<and>
         k \<notin> fst ` set (strings (modifiedXcstringsData r)) \<and>
         (\<forall>st. analyzeEntry L h k e st =
            (set_strings (AList.delete k (strings (modifiedXcstringsData st))) st)
              \<lparr>xcstringsModified := True,
               translationChanges := (translationChanges st)
                 \<lparr>staleRemoved := staleRemoved (translationChanges st) @ [k]\<rparr>\<rparr>) \<and>
         (\<forall>b st. analyzeEntry L h k (e\<lparr>shouldTranslate := b\<rparr>) st = analyzeEntry L h k e st) \<and>
         (\<forall>b st. analyzeEntry0 L h k (e\<lparr>shouldTranslate := b\<rparr>) st = analyzeEntry0 L h k e st)"
proof (intro conjI allI)
  have st: "is_stale e" using s by (simp add: is_stale_def)
  show "k \<in> set (staleRemoved (translationChanges r))"
    using m st by (force simp: r_def analyze_staleRemoved[OF d])
  have "map_of (remaining (strings cat)) k = None"
    using map_of_remaining[OF d m] st by simp
  then show "k \<notin> fst ` set (strings (modifiedXcstringsData r))"
    by (simp add: r_def analyze_strings[OF d] map_of_eq_None_iff)
  fix st'
  show "analyzeEntry L h k e st' =
            (set_strings (AList.delete k (strings (modifiedXcstringsData st'))) st')
              \<lparr>xcstringsModified := True,
               translationChanges := (translationChanges st')
                 \<lparr>staleRemoved := staleRemoved (translationChanges st') @ [k]\<rparr>\<rparr>"
    using st by (simp add: analyzeEntry_def)
  fix b
  show "analyzeEntry L h k (e\<lparr>shouldTranslate := b\<rparr>) st' = analyzeEntry L h k e st'"
    using st by (simp add: analyzeEntry_def is_stale_def)
next
  fix b st0
  show "analyzeEntry0 L h k (e\<lparr>shouldTranslate := b\<rparr>) st0 = analyzeEntry0 L h k e st0"
    using s by (simp add: analyzeEntry0_def is_stale_def)
qed

theorem stale_precedes_opt_out_witness:
  "distinct (map fst (strings exampleCatalog)) \<and>
   (str ''Old'', plainEntry\<lparr>extractionState := Some (str ''stale''), shouldTranslate := Some False\<rparr>)
      \<in> set (strings exampleCatalog) \<and>
   str ''Old'' \<in> set (staleRemoved (translationChanges
       (analyzeStringsForTranslation exampleCatalog exampleLanguages None))) \<and>
   str ''Old'' \<notin> fst ` set (strings (modifiedXcstringsData
       (analyzeStringsForTranslation exampleCatalog exampleLanguages None)))"
proof -
  have m: "(str ''Old'',
            plainEntry\<lparr>extractionState := Some (str ''stale''), shouldTranslate := Some False\<rparr>)
           \<in> set (strings exampleCatalog)"
    by (simp add: exampleCatalog_def)
  show ?thesis
    using stale_precedes_opt_out[OF distinct_exampleCatalog m, of exampleLanguages None] m
    by (simp add: plainEntry_def distinct_exampleCatalog)
qed

section \<open>Opt-out\<close>

text \<open>
  C6. Opt-out is inert: an entry with shouldTranslate false that is not stale is in the
  working copy exactly as it was in the input, gets no translation request and no entry
  in the need index, and the loop body leaves the whole state (the modified flag
  included) unchanged for it.
\<close>

theorem opt_out_inert:
  fixes cat L h
  defines "r \<equiv> analyzeStringsForTranslation cat L h"
  assumes d: "distinct (map fst (strings cat))"
    and m: "(k, e) \<in> set (strings cat)"
    and o: "shouldTranslate e = Some False"
    and s: "extractionState e \<noteq> Some (str ''stale'')"
  shows "(k, e) \<in> set (strings (modifiedXcstringsData r)) \<and>
         map_of (strings (modifiedXcstringsData r)) k = Some e \<and>
         k \<notin> key ` set (translationRequests r) \<and>
         stringTranslationMap r k = None \<and>
         (\<forall>st. analyzeEntry L h k e st = st)"
proof (intro conjI allI)
  have st: "\<not> is_stale e" using s by (simp add: is_stale_def)
  have n: "normalized e = e" using o by (simp add: normalized_def)
  show look: "map_of (strings (modifiedXcstringsData r)) k = Some e"
    using map_of_remaining[OF d m] st n by (simp add: r_def analyze_strings[OF d])
  then show "(k, e) \<in> set (strings (modifiedXcstringsData r))"
    by (rule map_of_SomeD)
  have "map_of (strings cat) k = Some e" using d m by simp
  then show "stringTranslationMap r k = None"
    using o by (simp add: r_def analyze_map[OF d] emits_def skipped_def)
  show "k \<notin> key ` set (translationRequests r)"
  proof
    assume "k \<in> key ` set (translationRequests r)"
    then obtain q where q: "q \<in> set (translationRequests r)" "key q = k" by auto
    then have "emits L e" using request_for_key[OF d, of q L h e] m by (simp add: r_def)
    then show False using o by (simp add: emits_def skipped_def)
  qed
  fix st'
  show "analyzeEntry L h k e st' = st'"
    using st o by (simp add: analyzeEntry_def)
qed

theorem opt_out_inert_witness:
  "distinct (map fst (strings exampleCatalog)) \<and>
   (str ''Brand'', plainEntry\<lparr>shouldTranslate := Some False\<rparr>) \<in> set (strings exampleCatalog) \<and>
   (str ''Brand'', plainEntry\<lparr>shouldTranslate := Some False\<rparr>) \<in> set (strings (modifiedXcstringsData
       (analyzeStringsForTranslation exampleCatalog exampleLanguages None))) \<and>
   str ''Brand'' \<notin> key ` set (translationRequests
       (analyzeStringsForTranslation exampleCatalog exampleLanguages None)) \<and>
   stringTranslationMap
       (analyzeStringsForTranslation exampleCatalog exampleLanguages None) (str ''Brand'') = None"
proof -
  have m: "(str ''Brand'', plainEntry\<lparr>shouldTranslate := Some False\<rparr>)
           \<in> set (strings exampleCatalog)"
    by (simp add: exampleCatalog_def)
  show ?thesis
    using opt_out_inert[OF distinct_exampleCatalog m, of exampleLanguages None] m
    by (simp add: plainEntry_def distinct_exampleCatalog)
qed

lemma needsTranslationForLang_iff:
  "needsTranslationForLang locs lang \<longleftrightarrow>
     map_of locs lang = None \<or>
     (\<exists>loc. map_of locs lang = Some loc \<and>
        (stringUnit loc = None \<or>
         (\<exists>su. stringUnit loc = Some su \<and>
            (value' su = None \<or>
             (\<exists>v. value' su = Some v \<and> (\<forall>c \<in> set v. isWhiteSpace c)) \<or>
             state su = str ''needs_review''))))"
  by (auto simp: needsTranslationForLang_def targetStringUnit_own isMissingOrEmpty_iff
      isNeedsReview_def split: option.splits)


section \<open>Need detection\<close>



lemma hello_in_exampleCatalog: "(str ''Hello'', helloEntry) \<in> set (strings exampleCatalog)"
  by (simp add: exampleCatalog_def)




lemma trim_split:
  "dropWhile isWhiteSpace v =
     trim v @ rev (takeWhile isWhiteSpace (rev (dropWhile isWhiteSpace v)))"
proof -
  define d where "d = dropWhile isWhiteSpace v"
  have "rev (rev d) = rev (takeWhile isWhiteSpace (rev d) @ dropWhile isWhiteSpace (rev d))"
    by (simp only: takeWhile_dropWhile_id)
  then have "d = rev (dropWhile isWhiteSpace (rev d)) @ rev (takeWhile isWhiteSpace (rev d))"
    by (simp only: rev_rev_ident rev_append)
  then show ?thesis by (simp only: d_def trim_def)
qed

lemma trim_decomposition:
  "\<exists>pre post. v = pre @ trim v @ post \<and> (\<forall>c \<in> set pre. isWhiteSpace c) \<and>
     (\<forall>c \<in> set post. isWhiteSpace c)"
proof -
  let ?post = "rev (takeWhile isWhiteSpace (rev (dropWhile isWhiteSpace v)))"
  have "v = takeWhile isWhiteSpace v @ dropWhile isWhiteSpace v" by simp
  then have "v = takeWhile isWhiteSpace v @ trim v @ ?post"
    using trim_split[of v] by simp
  moreover have "\<forall>c \<in> set (takeWhile isWhiteSpace v). isWhiteSpace c"
    by (auto dest: set_takeWhileD)
  moreover have "\<forall>c \<in> set ?post. isWhiteSpace c"
    by (auto dest: set_takeWhileD)
  ultimately show ?thesis by blast
qed

lemma trim_ends:
  assumes "trim v \<noteq> []"
  shows "\<not> isWhiteSpace (hd (trim v)) \<and> \<not> isWhiteSpace (last (trim v))"
proof -
  define d where "d = dropWhile isWhiteSpace v"
  define t where "t = dropWhile isWhiteSpace (rev d)"
  have tv: "trim v = rev t" by (simp add: trim_def t_def d_def)
  have t: "t \<noteq> []" using assms tv by simp
  then have "\<not> isWhiteSpace (hd t)" unfolding t_def by (rule hd_dropWhile)
  then have l: "\<not> isWhiteSpace (last (trim v))"
    using t by (simp add: tv last_rev)
  have dn: "d \<noteq> []" using t by (auto simp: t_def)
  then have hdd: "\<not> isWhiteSpace (hd d)" unfolding d_def by (rule hd_dropWhile)
  have "d = trim v @ rev (takeWhile isWhiteSpace (rev d))"
    unfolding d_def by (rule trim_split)
  then have "hd d = hd (trim v)" using assms by (metis hd_append2)
  with hdd l show ?thesis by simp
qed

lemma filter_requests_key:
  "distinct (map fst l) \<Longrightarrow> (k, e) \<in> set l \<Longrightarrow> emits L e \<Longrightarrow>
     filter (\<lambda>q. key q = k)
       (map (\<lambda>(k, e). requestFor L h k e) (filter (\<lambda>(k, e). emits L e) l)) =
     [requestFor L h k e]"
proof (induction l)
  case Nil
  then show ?case by simp
next
  case (Cons p l)
  obtain k0 e0 where p: "p = (k0, e0)" by (cases p)
  show ?case
  proof (cases "k0 = k")
    case True
    with Cons.prems have e0: "e0 = e" and nk: "k \<notin> fst ` set l" by (force simp: p)+
    have "filter (\<lambda>q. key q = k)
       (map (\<lambda>(k, e). requestFor L h k e) (filter (\<lambda>(k, e). emits L e) l)) = []"
      using nk by (force simp: filter_empty_conv requestFor_def)
    then show ?thesis using True e0 Cons.prems(3) by (simp add: p requestFor_def)
  next
    case False
    with Cons.prems have "(k, e) \<in> set l" "distinct (map fst l)" by (auto simp: p)
    then show ?thesis using Cons.IH Cons.prems(3) False by (simp add: p requestFor_def)
  qed
qed

lemma useKeyFallback_iff:
  "useKeyFallback (sourceTextCandidate h locs) \<longleftrightarrow>
     \<not> (\<exists>src loc su v. h = Some src \<and> src \<noteq> [] \<and> map_of locs src = Some loc \<and>
           stringUnit loc = Some su \<and> value' su = Some v \<and> trim v \<noteq> [])"
  by (auto simp: useKeyFallback_def sourceTextCandidate_def split: option.splits)

lemma sourceText_fallback:
  "useKeyFallback (sourceTextCandidate h locs) \<Longrightarrow> sourceText k (sourceTextCandidate h locs) = k"
  by (simp add: sourceText_def)

lemma sourceText_value:
  "h = Some src \<Longrightarrow> src \<noteq> [] \<Longrightarrow> map_of locs src = Some loc \<Longrightarrow> stringUnit loc = Some su \<Longrightarrow>
     value' su = Some v \<Longrightarrow> trim v \<noteq> [] \<Longrightarrow> sourceText k (sourceTextCandidate h locs) = trim v"
  by (simp add: sourceText_def useKeyFallback_def sourceTextCandidate_def)

lemma count_fallbacks:
  assumes d: "distinct (map fst l)"
  shows "length (filter (\<lambda>q. case map_of l (key q) of None \<Rightarrow> False
                          | Some e \<Rightarrow> useKeyFallback (sourceTextCandidate h (locs_of e)))
            (map (\<lambda>(k, e). requestFor L h k e) (filter (\<lambda>(k, e). emits L e) l))) =
         length (filter (\<lambda>(k, e). fallsBack L h e) l)"
proof -
  have "\<And>p. p \<in> set l \<Longrightarrow>
          (case map_of l (key (case p of (k, e) \<Rightarrow> requestFor L h k e)) of None \<Rightarrow> False
           | Some e \<Rightarrow> useKeyFallback (sourceTextCandidate h (locs_of e))) =
          useKeyFallback (sourceTextCandidate h (locs_of (snd p)))"
    using d by (auto simp: requestFor_def)
  then have "filter ((\<lambda>q. case map_of l (key q) of None \<Rightarrow> False
                          | Some e \<Rightarrow> useKeyFallback (sourceTextCandidate h (locs_of e))) \<circ>
                      (\<lambda>(k, e). requestFor L h k e)) (filter (\<lambda>(k, e). emits L e) l) =
             filter (\<lambda>p. useKeyFallback (sourceTextCandidate h (locs_of (snd p))))
               (filter (\<lambda>(k, e). emits L e) l)"
    by (intro filter_cong) auto
  moreover have "filter (\<lambda>p. useKeyFallback (sourceTextCandidate h (locs_of (snd p))))
               (filter (\<lambda>(k, e). emits L e) l) = filter (\<lambda>(k, e). fallsBack L h e) l"
    by (auto simp: fallsBack_def intro: filter_cong)
  ultimately show ?thesis by (simp add: filter_map)
qed

section \<open>Source text\<close>

text \<open>
  C4. Fallback determinism of the source text: a key that is neither stale nor opted out
  and has a target language needing translation gets exactly one request. Without a
  source-language hint (an empty hint counts as none) the request's text is the key;
  with a hint whose localization has no value, or a value that is empty after trimming,
  the text is the key as well; with a hint whose localization value is non-empty after
  trimming, the text is that value trimmed, which is the value without a whitespace-only
  prefix and a whitespace-only suffix, beginning and ending with a non-whitespace code
  unit. fallbackToKeyCount is the number of requests whose text fell back to the key.
\<close>

theorem fallback_determinism:
  fixes cat L h k e
  defines "r \<equiv> analyzeStringsForTranslation cat L h"
  defines "locs \<equiv> (case localizations e of None \<Rightarrow> [] | Some ls \<Rightarrow> ls)"
  assumes d: "distinct (map fst (strings cat))"
    and m: "(k, e) \<in> set (strings cat)"
    and s: "extractionState e \<noteq> Some (str ''stale'')"
    and o: "shouldTranslate e \<noteq> Some False"
    and n: "\<exists>lang \<in> set L. needsTranslationForLang locs lang"
  shows "(\<exists>q. filter (\<lambda>q. key q = k) (translationRequests r) = [q] \<and>
            (h = None \<or> h = Some [] \<longrightarrow> text' q = k) \<and>
            (\<forall>src. h = Some src \<and>
               \<not> (\<exists>loc su v. map_of locs src = Some loc \<and> stringUnit loc = Some su \<and>
                     value' su = Some v \<and> trim v \<noteq> []) \<longrightarrow> text' q = k) \<and>
            (\<forall>src loc su v. h = Some src \<and> src \<noteq> [] \<and> map_of locs src = Some loc \<and>
               stringUnit loc = Some su \<and> value' su = Some v \<and> trim v \<noteq> [] \<longrightarrow>
               text' q = trim v \<and>
               (\<exists>pre post. v = pre @ trim v @ post \<and> (\<forall>c \<in> set pre. isWhiteSpace c) \<and>
                  (\<forall>c \<in> set post. isWhiteSpace c)) \<and>
               \<not> isWhiteSpace (hd (trim v)) \<and> \<not> isWhiteSpace (last (trim v)))) \<and>
         fallbackToKeyCount r =
           length (filter
             (\<lambda>q. case map_of (strings cat) (key q) of None \<Rightarrow> False
                  | Some e' \<Rightarrow> useKeyFallback (sourceTextCandidate h
                      (case localizations e' of None \<Rightarrow> [] | Some ls \<Rightarrow> ls)))
             (translationRequests r))"
proof (intro conjI)
  have locs: "locs = locs_of e" by (simp add: locs_def locs_of_def)
  have em: "emits L e"
    using s o n by (auto simp: emits_def skipped_def is_stale_def neededLanguages_def locs
        filter_empty_conv)
  let ?q = "requestFor L h k e"
  have f: "filter (\<lambda>q. key q = k) (translationRequests r) = [?q]"
    using filter_requests_key[OF d m em] by (simp add: r_def analyze_requests[OF d])
  have t: "text' ?q = sourceText k (sourceTextCandidate h locs)"
    by (simp add: requestFor_def locs)
  have a: "h = None \<or> h = Some [] \<longrightarrow> text' ?q = k"
    unfolding t by (auto simp: useKeyFallback_iff intro!: sourceText_fallback)
  have b: "\<forall>src. h = Some src \<and>
               \<not> (\<exists>loc su v. map_of locs src = Some loc \<and> stringUnit loc = Some su \<and>
                     value' su = Some v \<and> trim v \<noteq> []) \<longrightarrow> text' ?q = k"
    unfolding t by (auto simp: useKeyFallback_iff intro!: sourceText_fallback)
  have c: "\<forall>src loc su v. h = Some src \<and> src \<noteq> [] \<and> map_of locs src = Some loc \<and>
               stringUnit loc = Some su \<and> value' su = Some v \<and> trim v \<noteq> [] \<longrightarrow>
               text' ?q = trim v \<and>
               (\<exists>pre post. v = pre @ trim v @ post \<and> (\<forall>c \<in> set pre. isWhiteSpace c) \<and>
                  (\<forall>c \<in> set post. isWhiteSpace c)) \<and>
               \<not> isWhiteSpace (hd (trim v)) \<and> \<not> isWhiteSpace (last (trim v))"
    unfolding t using trim_decomposition trim_ends by (auto simp: sourceText_value)
  show "\<exists>q. filter (\<lambda>q. key q = k) (translationRequests r) = [q] \<and>
            (h = None \<or> h = Some [] \<longrightarrow> text' q = k) \<and>
            (\<forall>src. h = Some src \<and>
               \<not> (\<exists>loc su v. map_of locs src = Some loc \<and> stringUnit loc = Some su \<and>
                     value' su = Some v \<and> trim v \<noteq> []) \<longrightarrow> text' q = k) \<and>
            (\<forall>src loc su v. h = Some src \<and> src \<noteq> [] \<and> map_of locs src = Some loc \<and>
               stringUnit loc = Some su \<and> value' su = Some v \<and> trim v \<noteq> [] \<longrightarrow>
               text' q = trim v \<and>
               (\<exists>pre post. v = pre @ trim v @ post \<and> (\<forall>c \<in> set pre. isWhiteSpace c) \<and>
                  (\<forall>c \<in> set post. isWhiteSpace c)) \<and>
               \<not> isWhiteSpace (hd (trim v)) \<and> \<not> isWhiteSpace (last (trim v)))"
    using f a b c by blast
  show "fallbackToKeyCount r =
           length (filter
             (\<lambda>q. case map_of (strings cat) (key q) of None \<Rightarrow> False
                  | Some e' \<Rightarrow> useKeyFallback (sourceTextCandidate h
                      (case localizations e' of None \<Rightarrow> [] | Some ls \<Rightarrow> ls)))
             (translationRequests r))"
    unfolding r_def analyze_requests[OF d] analyze_count[OF d]
    using count_fallbacks[OF d, of h L] by (simp only: locs_of_def)
qed


lemma helloEntry_active:
  "extractionState helloEntry \<noteq> Some (str ''stale'')"
  "shouldTranslate helloEntry \<noteq> Some False"
  by (simp_all add: helloEntry_def plainEntry_def)

lemma helloEntry_needs_fr:
  "\<exists>lang \<in> set exampleLanguages.
     needsTranslationForLang (case localizations helloEntry of None \<Rightarrow> [] | Some ls \<Rightarrow> ls) lang"
  by (simp add: exampleLanguages_def helloEntry_def plainEntry_def unit_of_def
      needsTranslationForLang_def targetStringUnit_own isNeedsReview_def str_def)

lemma trim_hello_there: "trim (str '' Hello there '') = str ''Hello there''"
  by (simp add: trim_def str_def isWhiteSpace_def)

theorem fallback_determinism_witness:
  "distinct (map fst (strings exampleCatalog)) \<and>
   (str ''Hello'', helloEntry) \<in> set (strings exampleCatalog) \<and>
   (\<exists>q. filter (\<lambda>q. key q = str ''Hello'')
          (translationRequests
             (analyzeStringsForTranslation exampleCatalog exampleLanguages None)) = [q] \<and>
        text' q = str ''Hello'') \<and>
   (\<exists>q. filter (\<lambda>q. key q = str ''Hello'')
          (translationRequests
             (analyzeStringsForTranslation exampleCatalog exampleLanguages (Some (str ''fr'')))) = [q] \<and>
        text' q = str ''Bonjour'') \<and>
   (\<exists>q. filter (\<lambda>q. key q = str ''Hello'')
          (translationRequests
             (analyzeStringsForTranslation exampleCatalog exampleLanguages (Some (str ''en'')))) = [q] \<and>
        text' q = str ''Hello there'') \<and>
   (\<exists>q. filter (\<lambda>q. key q = str ''Hello'')
          (translationRequests
             (analyzeStringsForTranslation exampleCatalog exampleLanguages (Some (str ''it'')))) = [q] \<and>
        text' q = str ''Hello'') \<and>
   fallbackToKeyCount
     (analyzeStringsForTranslation exampleCatalog exampleLanguages (Some (str ''en''))) = 1"
proof -
  have reqs: "map key (translationRequests
      (analyzeStringsForTranslation exampleCatalog exampleLanguages (Some (str ''en'')))) =
      [str ''Hello'', str ''Bye'']"
    by (subst analyze_requests[OF distinct_exampleCatalog])
       (simp add: exampleCatalog_def helloEntry_def plainEntry_def unit_of_def
          exampleLanguages_def emits_def skipped_def is_stale_def neededLanguages_def
          locs_of_def needsTranslationForLang_def targetStringUnit_own isMissingOrEmpty_def
          isNeedsReview_def requestFor_def str_def trim_def isWhiteSpace_def)
  have e: "fallbackToKeyCount
     (analyzeStringsForTranslation exampleCatalog exampleLanguages (Some (str ''en''))) = 1"
  proof -
    let ?G = "\<lambda>k. case map_of (strings exampleCatalog) k of None \<Rightarrow> False
                | Some e' \<Rightarrow> useKeyFallback (sourceTextCandidate (Some (str ''en''))
                    (case localizations e' of None \<Rightarrow> [] | Some ls \<Rightarrow> ls))"
    let ?R = "translationRequests
      (analyzeStringsForTranslation exampleCatalog exampleLanguages (Some (str ''en'')))"
    have "length (filter (\<lambda>q. ?G (key q)) ?R) = length (filter ?G (map key ?R))"
      by (simp add: filter_map comp_def)
    also have "\<dots> = 1"
      unfolding reqs
      by (simp add: exampleCatalog_def helloEntry_def plainEntry_def unit_of_def
          useKeyFallback_def sourceTextCandidate_def str_def trim_def isWhiteSpace_def)
    finally show ?thesis
      using fallback_determinism[OF distinct_exampleCatalog hello_in_exampleCatalog
        helloEntry_active helloEntry_needs_fr, of "Some (str ''en'')"]
      by simp
  qed
  have a: "\<exists>q. filter (\<lambda>q. key q = str ''Hello'')
          (translationRequests
             (analyzeStringsForTranslation exampleCatalog exampleLanguages None)) = [q] \<and>
        text' q = str ''Hello''"
    using fallback_determinism[OF distinct_exampleCatalog hello_in_exampleCatalog
        helloEntry_active helloEntry_needs_fr, of None]
    by auto
  have t: "trim (str ''Bonjour'') = str ''Bonjour''" "str ''Bonjour'' \<noteq> []"
    by (simp_all add: trim_def str_def isWhiteSpace_def)
  have b: "\<exists>q. filter (\<lambda>q. key q = str ''Hello'')
          (translationRequests
             (analyzeStringsForTranslation exampleCatalog exampleLanguages (Some (str ''fr'')))) = [q] \<and>
        text' q = str ''Bonjour''"
    using fallback_determinism[OF distinct_exampleCatalog hello_in_exampleCatalog
        helloEntry_active helloEntry_needs_fr, of "Some (str ''fr'')"] t
    by (auto simp: helloEntry_def plainEntry_def unit_of_def str_def)
  have t': "str ''Hello there'' \<noteq> []" by (simp add: str_def)
  have c: "\<exists>q. filter (\<lambda>q. key q = str ''Hello'')
          (translationRequests
             (analyzeStringsForTranslation exampleCatalog exampleLanguages (Some (str ''en'')))) = [q] \<and>
        text' q = str ''Hello there''"
    using fallback_determinism[OF distinct_exampleCatalog hello_in_exampleCatalog
        helloEntry_active helloEntry_needs_fr, of "Some (str ''en'')"] trim_hello_there t'
    by (auto simp: helloEntry_def plainEntry_def unit_of_def str_def)
  have d: "\<exists>q. filter (\<lambda>q. key q = str ''Hello'')
          (translationRequests
             (analyzeStringsForTranslation exampleCatalog exampleLanguages (Some (str ''it'')))) = [q] \<and>
        text' q = str ''Hello''"
    using fallback_determinism[OF distinct_exampleCatalog hello_in_exampleCatalog
        helloEntry_active helloEntry_needs_fr, of "Some (str ''it'')"]
    by (auto simp: helloEntry_def plainEntry_def unit_of_def str_def)
  show ?thesis
    using a b c d e distinct_exampleCatalog hello_in_exampleCatalog by blast
qed

lemma map_of_Some_key: "map_of al k = Some v \<Longrightarrow> k \<in> fst ` set al"
  by (force dest: map_of_SomeD)

lemma mergeTranslationResult_outcome:
  assumes "updatedXcstringsData st1 = updatedXcstringsData st2" "changes st1 = changes st2"
    "objectPrototype st1 = objectPrototype st2"
  shows "(\<exists>e. mergeTranslationResult stm item st1 = Inl e \<and>
               mergeTranslationResult stm item st2 = Inl e) \<or>
         (\<exists>s1 s2. mergeTranslationResult stm item st1 = Inr s1 \<and>
               mergeTranslationResult stm item st2 = Inr s2 \<and>
               updatedXcstringsData s1 = updatedXcstringsData s2 \<and> changes s1 = changes s2 \<and>
               objectPrototype s1 = objectPrototype s2)"
  using assms
  by (auto simp: mergeTranslationResult_def warn_def Let_def
      split: option.splits sum.splits prod.splits)

lemma mergeTranslations_outcome:
  "updatedXcstringsData st1 = updatedXcstringsData st2 \<Longrightarrow> changes st1 = changes st2 \<Longrightarrow>
   objectPrototype st1 = objectPrototype st2 \<Longrightarrow>
     outcome (mergeTranslations stm items st1) = outcome (mergeTranslations stm items st2)"
proof (induction items arbitrary: st1 st2)
  case Nil
  then show ?case by (simp add: outcome_def)
next
  case (Cons item items)
  from mergeTranslationResult_outcome[OF Cons.prems, of stm item]
  show ?case
  proof (elim disjE exE conjE)
    fix e
    assume "mergeTranslationResult stm item st1 = Inl e"
      "mergeTranslationResult stm item st2 = Inl e"
    then show ?thesis by simp
  next
    fix s1 s2
    assume s: "mergeTranslationResult stm item st1 = Inr s1"
      "mergeTranslationResult stm item st2 = Inr s2"
      and eq: "updatedXcstringsData s1 = updatedXcstringsData s2" "changes s1 = changes s2"
        "objectPrototype s1 = objectPrototype s2"
    show ?thesis using s Cons.IH[OF eq] by simp
  qed
qed

lemma mergeTranslationResult_keys:
  "mergeTranslationResult stm item st = Inr st' \<Longrightarrow>
     map fst (strings (updatedXcstringsData st')) = map fst (strings (updatedXcstringsData st))"
  by (auto simp: mergeTranslationResult_def warn_def Let_def update_keys map_of_Some_key
      split: option.splits sum.splits prod.splits)

lemma unknown_items_ignored:
  "outcome (mergeTranslations stm items st) =
   outcome (mergeTranslations stm
     (filter (\<lambda>i. key' i \<in> fst ` set (strings (updatedXcstringsData st)) \<and> stm (key' i) \<noteq> None)
        items) st)"
proof (induction items arbitrary: st)
  case Nil
  then show ?case by simp
next
  case (Cons item items)
  let ?known = "\<lambda>st i. key' i \<in> fst ` set (strings (updatedXcstringsData st)) \<and> stm (key' i) \<noteq> None"
  show ?case
  proof (cases "?known st item")
    case False
    then have "map_of (strings (updatedXcstringsData st)) (key' item) = None \<or>
               stm (key' item) = None"
      by (auto simp: map_of_eq_None_iff)
    then have m: "mergeTranslationResult stm item st = Inr (warn (key' item) st)"
      by (auto simp: mergeTranslationResult_def Let_def split: option.splits)
    have f: "filter (?known st) (item # items) = filter (?known st) items"
      using False by simp
    have "outcome (mergeTranslations stm (item # items) st) =
          outcome (mergeTranslations stm items (warn (key' item) st))"
      using m by simp
    also have "\<dots> = outcome (mergeTranslations stm items st)"
      by (rule mergeTranslations_outcome) (simp_all add: warn_def)
    also have "\<dots> = outcome (mergeTranslations stm (filter (?known st) items) st)"
      by (rule Cons.IH)
    finally show ?thesis unfolding f .
  next
    case True
    show ?thesis
    proof (cases "mergeTranslationResult stm item st")
      case (Inl e)
      then show ?thesis using True by simp
    next
      case (Inr st')
      then have "map fst (strings (updatedXcstringsData st')) =
                 map fst (strings (updatedXcstringsData st))"
        by (rule mergeTranslationResult_keys)
      then have "fst ` set (strings (updatedXcstringsData st')) =
                 fst ` set (strings (updatedXcstringsData st))"
        by (metis set_map)
      then show ?thesis using True Inr Cons.IH[of st'] by simp
    qed
  qed
qed

lemma earlier_analyzer_review:
  "needsTranslationForLang [(str ''fr'', unit_of ''needs_review'' ''Bonjour'')] (str ''fr'') \<and>
   \<not> needsTranslationForLang0 [(str ''fr'', unit_of ''needs_review'' ''Bonjour'')] (str ''fr'')"
  by (simp add: needsTranslationForLang_def needsTranslationForLang0_def targetStringUnit_own
      targetLocalization_def getProperty_def isNeedsReview_def unit_of_def str_def)

lemma analyzeEntry0_stale:
  "is_stale e \<Longrightarrow> analyzeEntry0 L h k (e\<lparr>shouldTranslate := b\<rparr>) st = analyzeEntry0 L h k e st"
  by (simp add: analyzeEntry0_def is_stale_def)

section \<open>The merge loop\<close>

text \<open>
  C7. Merger tolerance of out-of-contract responses: for a response item whose key is
  not a key of the modified catalog, or has no entry in the need index, the merger
  emits one diagnostic and changes neither the catalog nor the ledger, and goes on with
  the remaining items; a (language, value) pair whose language is not among the key's
  languagesNeeded leaves the entry and the ledger as they were. Hence the catalog and
  the ledger after a whole response are those of the response without its items of
  unknown key.
\<close>

theorem merger_tolerates_unknown:
  "(map_of (strings (updatedXcstringsData st)) (key' item) = None \<or> stm (key' item) = None \<longrightarrow>
      mergeTranslationResult stm item st =
        Inr (st\<lparr>warnings := warnings st @ [unknownKeyWarning (key' item)]\<rparr>) \<and>
      mergeTranslations stm (item # rest) st =
        mergeTranslations stm rest (st\<lparr>warnings := warnings st @ [unknownKeyWarning (key' item)]\<rparr>)) \<and>
   (lang \<notin> set (languages info) \<longrightarrow>
      applyTranslation k info (lang, v) s = Inr s \<and>
      applyTranslations k info ((lang, v) # ps) s = applyTranslations k info ps s) \<and>
   outcome (mergeTranslations stm items st) =
   outcome (mergeTranslations stm
     (filter (\<lambda>i. key' i \<in> fst ` set (strings (updatedXcstringsData st)) \<and> stm (key' i) \<noteq> None)
        items) st)"
  using unknown_items_ignored[of stm items st]
  by (auto simp: mergeTranslationResult_def warn_def applyTranslation_def Let_def
      split: option.splits prod.splits)

theorem merger_tolerates_unknown_witness:
  "map_of (strings (updatedXcstringsData exampleMergeStart)) (key' ghostItem) = None \<and>
   mergeTranslationResult [str ''Hello'' \<mapsto> helloInfo] ghostItem exampleMergeStart =
     Inr (exampleMergeStart\<lparr>warnings := [str ''Received translation for unknown key: Ghost'']\<rparr>) \<and>
   [str ''Hello'' \<mapsto> helloInfo] (key' brandItem) = None \<and>
   mergeTranslations [str ''Hello'' \<mapsto> helloInfo] [brandItem] exampleMergeStart =
     Inr (exampleMergeStart\<lparr>warnings := [str ''Received translation for unknown key: Brand'']\<rparr>) \<and>
   str ''it'' \<notin> set (languages helloInfo) \<and>
   applyTranslation (str ''Hello'') helloInfo (str ''it'', str ''Ciao'')
       (helloEntry, changes exampleMergeStart, objectPrototype exampleMergeStart) =
     Inr (helloEntry, changes exampleMergeStart, objectPrototype exampleMergeStart)"
proof -
  have g: "map_of (strings (updatedXcstringsData exampleMergeStart)) (key' ghostItem) = None"
    by (simp add: exampleMergeStart_def exampleCatalog_def ghostItem_def str_def)
  have b: "[str ''Hello'' \<mapsto> helloInfo] (key' brandItem) = None"
    by (simp add: brandItem_def str_def)
  have i: "str ''it'' \<notin> set (languages helloInfo)"
    by (simp add: helloInfo_def str_def)
  have w: "unknownKeyWarning (key' ghostItem) = str ''Received translation for unknown key: Ghost''"
      "unknownKeyWarning (key' brandItem) = str ''Received translation for unknown key: Brand''"
      "warnings exampleMergeStart = []"
    by (simp_all add: unknownKeyWarning_def ghostItem_def brandItem_def str_def exampleMergeStart_def)
  show ?thesis
    using g b i w
      merger_tolerates_unknown[of exampleMergeStart ghostItem "[str ''Hello'' \<mapsto> helloInfo]"
        "[]" "str ''it''" helloInfo "str ''Hello''" "str ''Ciao''"
        "(helloEntry, changes exampleMergeStart, objectPrototype exampleMergeStart)" "[]"]
      merger_tolerates_unknown[of exampleMergeStart brandItem "[str ''Hello'' \<mapsto> helloInfo]"
        "[]" "str ''it''" helloInfo "str ''Hello''" "str ''Ciao''"
        "(helloEntry, changes exampleMergeStart, objectPrototype exampleMergeStart)" "[]"]
    by simp
qed

lemma hello_analysis:
  "analyzeStringsForTranslation helloCatalog [str ''fr''] None =
     \<lparr>translationRequests =
        [\<lparr>key = str ''Hello'', text' = str ''Hello'', targetLanguages = [str ''fr''],
          comment' = None\<rparr>],
      translationChanges = \<lparr>added = [], updated = [], staleRemoved = []\<rparr>,
      stringTranslationMap =
        [str ''Hello'' \<mapsto> \<lparr>languages = [str ''fr''], isNew = [str ''fr'' \<mapsto> True]\<rparr>],
      modifiedXcstringsData = helloCatalog,
      xcstringsModified = False,
      fallbackToKeyCount = 1\<rparr>"
  by (simp add: analysis_defs helloCatalog_def plainEntry_def str_def)

lemma applyTranslation_existing:
  "lang \<in> set (languages info) \<Longrightarrow> localizations e = Some locs \<Longrightarrow> map_of locs lang = Some loc \<Longrightarrow>
     \<exists>e' ch' locs'. applyTranslation k info (lang, v) (e, ch, names) = Inr (e', ch', names) \<and>
        localizations e' = Some locs' \<and>
        map_of locs' lang =
          Some (loc\<lparr>stringUnit := Some \<lparr>state = str ''translated'', value' = Some v\<rparr>\<rparr>)"
  by (simp add: applyTranslation_def getProperty_def update_conv')

lemma applyTranslation_missing:
  "lang \<in> set (languages info) \<Longrightarrow>
     localizations e = None \<or>
     (\<exists>locs. localizations e = Some locs \<and> map_of locs lang = None \<and> lang \<notin> set names) \<Longrightarrow>
     applyTranslation k info (lang, v) (e, ch, names) = Inl TypeError"
  by (auto simp: applyTranslation_def getProperty_def)

lemma applyTranslation_inherited:
  "lang \<in> set (languages info) \<Longrightarrow> localizations e = Some locs \<Longrightarrow> map_of locs lang = None \<Longrightarrow>
   lang \<in> set names \<Longrightarrow>
     \<exists>names'. applyTranslation k info (lang, v) (e, ch, names) =
        Inr (e, recordChange k info lang ch, names')"
  by (simp add: applyTranslation_def getProperty_def)

lemma localizations_normalized:
  "shouldTranslate e \<noteq> Some False \<Longrightarrow> localizations (normalized e) = Some (locs_of e)"
  by (simp add: normalized_def locs_of_def split: option.splits)

lemma new_language_TypeError:
  assumes d: "distinct (map fst (strings cat))"
    and m: "(k, e) \<in> set (strings cat)"
    and s: "extractionState e \<noteq> Some (str ''stale'')"
    and o: "shouldTranslate e \<noteq> Some False"
    and l: "lang \<in> set L"
    and n: "map_of (locs_of e) lang = None"
    and p: "lang \<notin> set objectPrototypeNames"
  shows "runTranslation cat L h (\<lparr>key' = k, translations' = (lang, v) # ps\<rparr> # rest) = Inl TypeError"
proof -
  let ?r = "analyzeStringsForTranslation cat L h"
  have need: "needsTranslationForLang (locs_of e) lang"
    using n by (simp add: needsTranslationForLang_iff)
  have em: "emits L e"
    using s o l need by (auto simp: emits_def skipped_def is_stale_def neededLanguages_def
        filter_empty_conv)
  have req: "length (translationRequests ?r) > 0"
    using emitted_request[OF d m em, of h] by (auto simp: length_greater_0_conv)
  have "map_of (strings cat) k = Some e" using d m by simp
  then have stm: "stringTranslationMap ?r k = Some (infoFor L e)"
    using em by (simp add: analyze_map[OF d])
  have mem: "lang \<in> set (languages (infoFor L e))"
    using l need by (simp add: infoFor_def neededLanguages_def)
  have ent: "map_of (strings (modifiedXcstringsData ?r)) k = Some (normalized e)"
    using map_of_remaining[OF d m] s by (simp add: analyze_strings[OF d] is_stale_def)
  have "applyTranslation k (infoFor L e) (lang, v)
          (normalized e, translationChanges ?r, objectPrototypeNames) = Inl TypeError"
    using mem n p localizations_normalized[OF o] by (intro applyTranslation_missing) auto
  then show ?thesis
    using req stm ent
    by (simp add: runTranslation_def Let_def mergeBatch_def mergeTranslationResult_def)
qed

section \<open>Applying a translation\<close>

text \<open>
  C1. Merger apply semantics: for a response item whose key is in the modified catalog
  and in the need index, and a language of the key's languagesNeeded, the merger is to
  set \<open>localizations[language].stringUnit\<close> to the translated value, creating the
  localization entry if there was none. The code does the assignment when the entry
  exists (\<open>applyTranslation_existing\<close>); when it does not, the code throws
  (\<open>applyTranslation_missing\<close>, \<open>new_language_TypeError\<close>), or, for a language
  code that names a property of \<open>Object.prototype\<close>, assigns to the inherited member
  (\<open>applyTranslation_inherited\<close>); in neither case is an entry created. The theorem runs the
  specification's own scenario: the catalog holds the key Hello with an empty
  localizations object, the target language is fr, and the provider answers Bonjour for
  fr. The analysis leaves the localizations empty and marks fr as new; the merge then
  assigns \<open>stringUnit\<close> through the missing entry, and the run ends in a TypeError
  instead of creating the entry.
\<close>

theorem hello_merge_TypeError:
  "runTranslation helloCatalog [str ''fr''] None bonjourResponse = Inl TypeError"
  unfolding runTranslation_def hello_analysis
  by (simp add: merge_defs helloCatalog_def plainEntry_def bonjourResponse_def str_def)

lemma hello_merge_earlier_analyzer:
  "map_sum id changes (runTranslation0 helloCatalog [str ''fr''] None bonjourResponse) =
     Inr \<lparr>added = [str ''Hello (fr)''], updated = [], staleRemoved = []\<rparr>"
  by (simp add: runTranslation0_def analysis0_defs merge_defs helloCatalog_def plainEntry_def
      bonjourResponse_def str_def)











lemma example_analysis:
  "analyzeStringsForTranslation exampleCatalog exampleLanguages None =
     \<lparr>translationRequests =
        [\<lparr>key = str ''Hello'', text' = str ''Hello'', targetLanguages = [str ''fr''],
          comment' = Some (str ''Greeting'')\<rparr>,
         \<lparr>key = str ''Bye'', text' = str ''Bye'', targetLanguages = [str ''fr'', str ''de''],
          comment' = None\<rparr>],
      translationChanges = \<lparr>added = [], updated = [], staleRemoved = [str ''Old'']\<rparr>,
      stringTranslationMap =
        [str ''Hello'' \<mapsto> \<lparr>languages = [str ''fr''], isNew = [str ''fr'' \<mapsto> False]\<rparr>,
         str ''Bye'' \<mapsto> \<lparr>languages = [str ''fr'', str ''de''],
                          isNew = [str ''fr'' \<mapsto> True, str ''de'' \<mapsto> True]\<rparr>],
      modifiedXcstringsData =
        \<lparr>sourceLanguage = Some (str ''en''),
         strings =
           [(str ''Hello'', helloEntry),
            (str ''Brand'', plainEntry\<lparr>shouldTranslate := Some False\<rparr>),
            (str ''Bye'', plainEntry\<lparr>localizations := Some []\<rparr>)]\<rparr>,
      xcstringsModified = True,
      fallbackToKeyCount = 2\<rparr>"
  by (simp add: analysis_defs exampleCatalog_def exampleLanguages_def helloEntry_def
      plainEntry_def unit_of_def str_def trim_def isWhiteSpace_def)












section \<open>The ledger\<close>




section \<open>Lemmas about the store\<close>

lemma frame_refl: "frame n h h"
  by (simp add: frame_def)

lemma frame_trans: "frame n h1 h2 \<Longrightarrow> frame n h2 h3 \<Longrightarrow> frame n h1 h3"
  by (auto simp: frame_def)

lemma frame_append: "frame n h (h @ ext)"
  by (simp add: frame_def nth_append)

lemma frame_update: "n \<le> a \<Longrightarrow> kindOf c = kindOf (h ! a) \<Longrightarrow> frame n h (h[a := c])"
proof -
  assume a: "n \<le> a" "kindOf c = kindOf (h ! a)"
  have "kindOf (h[a := c] ! b) = kindOf (h ! b)" if "b < length h" for b
    using that a(2) by (cases "b = a") simp_all
  moreover have "h[a := c] ! b = h ! b" if "b < n" for b
    using that a(1) by simp
  ultimately show ?thesis by (simp add: frame_def)
qed

lemma points_frame: "frame n h h' \<Longrightarrow> points n h kd a \<Longrightarrow> points n h' kd a"
  by (auto simp: frame_def points_def)

lemma cell_ok_frame: "frame n h h' \<Longrightarrow> cell_ok n h c \<Longrightarrow> cell_ok n h' c"
  by (cases c) (auto simp: list_all_iff points_frame split: option.splits)

lemma region_ok_append:
  assumes "region_ok n h" "cell_ok n (h @ [c]) c"
  shows "region_ok n (h @ [c])"
  unfolding region_ok_def
proof (intro allI impI)
  fix a assume a: "n \<le> a \<and> a < length (h @ [c])"
  show "cell_ok n (h @ [c]) ((h @ [c]) ! a)"
  proof (cases "a < length h")
    case True
    then have "cell_ok n h (h ! a)" using assms(1) a by (simp add: region_ok_def)
    then show ?thesis using True cell_ok_frame[OF frame_append] by (simp add: nth_append)
  next
    case False
    then have "a = length h" using a by simp
    then show ?thesis using assms(2) by simp
  qed
qed

lemma region_ok_update:
  assumes "region_ok n h" "n \<le> a" "kindOf c = kindOf (h ! a)" "cell_ok n h c"
  shows "region_ok n (h[a := c])"
  unfolding region_ok_def
proof (intro allI impI)
  fix b assume b: "n \<le> b \<and> b < length (h[a := c])"
  have f: "frame n h (h[a := c])" using assms(2,3) by (rule frame_update)
  show "cell_ok n (h[a := c]) ((h[a := c]) ! b)"
  proof (cases "b = a")
    case True
    then show ?thesis using b cell_ok_frame[OF f assms(4)] by simp
  next
    case False
    then have "cell_ok n h (h ! b)" using assms(1) b by (simp add: region_ok_def)
    then show ?thesis using False cell_ok_frame[OF f] by simp
  qed
qed

lemma region_ok_cell: "region_ok n h \<Longrightarrow> points n h kd a \<Longrightarrow> cell_ok n h (h ! a)"
  by (simp add: region_ok_def points_def)

lemma points_cellAt: "points n h kd a \<Longrightarrow> cellAt h a = Some (h ! a)"
  by (simp add: points_def cellAt_def)

text \<open>Allocation appends cells and returns their addresses.\<close>

lemma allocLocs_eq:
  "allocLocs h locs =
     (h @ map (\<lambda>(l, loc). Loc (stringUnit loc)) locs,
      zip (map fst locs) [length h..<length h + length locs])"
proof (induction locs arbitrary: h)
  case Nil
  then show ?case by simp
next
  case (Cons p locs)
  obtain l loc where p: "p = (l, loc)" by (cases p)
  have u: "[length h..<length h + length (p # locs)] =
           length h # [Suc (length h)..<Suc (length h) + length locs]"
    by (subst upt_rec) simp
  show ?case
    unfolding u by (simp add: p Cons.IH del: upt_Suc)
qed

lemma allocLocs_cell_ok:
  assumes "allocLocs h locs = (h', refs)" "n \<le> length h"
  shows "cell_ok n (h' @ ext) (Locs refs)"
proof -
  have h': "h' = h @ map (\<lambda>(l, loc). Loc (stringUnit loc)) locs"
    and refs: "refs = zip (map fst locs) [length h..<length h + length locs]"
    using assms(1) by (simp_all add: allocLocs_eq)
  have "points n (h' @ ext) KLoc a" if "(l, a) \<in> set refs" for l a
  proof -
    from that have "a \<in> set [length h..<length h + length locs]"
      unfolding refs by (rule set_zip_rightD)
    then have a: "length h \<le> a" "a < length h + length locs" by auto
    then obtain i where i: "a = length h + i" "i < length locs"
      by (metis add_diff_inverse_nat less_diff_conv2 nat_add_left_cancel_less not_less)
    then have "(h' @ ext) ! a = (case locs ! i of (l, loc) \<Rightarrow> Loc (stringUnit loc))"
      by (simp add: h' nth_append)
    then have "kindOf ((h' @ ext) ! a) = KLoc" by (simp split: prod.splits)
    then show ?thesis using a assms(2) by (simp add: points_def h')
  qed
  then show ?thesis by (auto simp: list_all_iff)
qed

lemma region_ok_append_list:
  assumes "region_ok n h" "\<forall>c \<in> set ext. kindOf c = KLoc"
  shows "region_ok n (h @ ext)"
  using assms
proof (induction ext arbitrary: h)
  case Nil
  then show ?case by simp
next
  case (Cons c ext)
  from Cons.prems(2) have "cell_ok n (h @ [c]) c" by (cases c) auto
  then have "region_ok n (h @ [c])" using Cons.prems(1) by (rule region_ok_append[rotated])
  then have "region_ok n ((h @ [c]) @ ext)" using Cons.prems(2) by (intro Cons.IH) auto
  then show ?case by simp
qed

lemma allocEntry_props:
  assumes "allocEntry h e = (h', ea)" "n \<le> length h" "region_ok n h"
  shows "(\<exists>ext. h' = h @ ext) \<and> region_ok n h' \<and> points n h' KEntry ea"
proof (cases "localizations e")
  case None
  then have h': "h' = h @ [Entry (comment e) (shouldTranslate e) (extractionState e) None]"
    and ea: "ea = length h"
    using assms(1) by (simp_all add: allocEntry_def)
  have "region_ok n h'" unfolding h' using assms(3) by (rule region_ok_append) simp
  then show ?thesis using assms(2) by (auto simp: h' ea points_def)
next
  case (Some locs)
  obtain h1 refs where a: "allocLocs h locs = (h1, refs)" by (cases "allocLocs h locs")
  have h1: "h1 = h @ map (\<lambda>(l, loc). Loc (stringUnit loc)) locs"
    using a by (simp add: allocLocs_eq)
  let ?E = "Entry (comment e) (shouldTranslate e) (extractionState e) (Some (length h1))"
  have h': "h' = (h1 @ [Locs refs]) @ [?E]" and ea: "ea = Suc (length h1)"
    using assms(1) Some a by (simp_all add: allocEntry_def)
  have r1: "region_ok n h1" unfolding h1 using assms(3)
    by (rule region_ok_append_list) (auto split: prod.splits)
  have r2: "region_ok n (h1 @ [Locs refs])"
    using r1 allocLocs_cell_ok[OF a assms(2), of "[Locs refs]"] by (rule region_ok_append)
  have n1: "n \<le> length h1" using assms(2) by (simp add: h1)
  have "cell_ok n ((h1 @ [Locs refs]) @ [?E]) ?E"
    using n1 by (simp add: points_def nth_append)
  with r2 have r3: "region_ok n h'" unfolding h' by (rule region_ok_append)
  have "points n h' KEntry ea" using n1 by (simp add: h' ea points_def nth_append)
  moreover have "\<exists>ext. h' = h @ ext" by (simp add: h' h1)
  ultimately show ?thesis using r3 by simp
qed

lemma allocEntries_props:
  "allocEntries h al = (h', refs) \<Longrightarrow> n \<le> length h \<Longrightarrow> region_ok n h \<Longrightarrow>
     (\<exists>ext. h' = h @ ext) \<and> region_ok n h' \<and> list_all (\<lambda>(k, a). points n h' KEntry a) refs"
proof (induction al arbitrary: h h' refs)
  case Nil
  then show ?case by simp
next
  case (Cons p al)
  obtain k e where p: "p = (k, e)" by (cases p)
  obtain h1 ea where a1: "allocEntry h e = (h1, ea)" by (cases "allocEntry h e")
  obtain h2 refs2 where a2: "allocEntries h1 al = (h2, refs2)" by (cases "allocEntries h1 al")
  from Cons.prems(1) have res: "h' = h2" "refs = (k, ea) # refs2" by (simp_all add: p a1 a2)
  from allocEntry_props[OF a1 Cons.prems(2,3)] obtain ext1 where
    e1: "h1 = h @ ext1" "region_ok n h1" "points n h1 KEntry ea" by auto
  have n1: "n \<le> length h1" using Cons.prems(2) e1(1) by simp
  from Cons.IH[OF a2 n1 e1(2)] obtain ext2 where
    e2: "h2 = h1 @ ext2" "region_ok n h2" "list_all (\<lambda>(k, a). points n h2 KEntry a) refs2" by auto
  have "points n h2 KEntry ea" using e1(3) points_frame[OF frame_append] by (simp add: e2(1))
  then show ?case using e1 e2 by (simp add: res)
qed

lemma allocCatalog_props:
  assumes "allocCatalog h cat = (h', root')"
  shows "(\<exists>ext. h' = h @ ext) \<and> region_ok (length h) h' \<and> points (length h) h' KRoot root'"
proof -
  let ?n = "length h"
  obtain h1 refs where a: "allocEntries h (strings cat) = (h1, refs)"
    by (cases "allocEntries h (strings cat)")
  have r0: "region_ok ?n h" by (auto simp: region_ok_def)
  from allocEntries_props[OF a _ r0] obtain ext where
    e: "h1 = h @ ext" "region_ok ?n h1" "list_all (\<lambda>(k, a). points ?n h1 KEntry a) refs" by auto
  let ?R = "Root (sourceLanguage cat) (length h1)"
  have h': "h' = (h1 @ [Strings refs]) @ [?R]" and root': "root' = Suc (length h1)"
    using assms a by (simp_all add: allocCatalog_def)
  have "cell_ok ?n (h1 @ [Strings refs]) (Strings refs)"
    using e(3) points_frame[OF frame_append, of ?n h1 _ _ "[Strings refs]"]
    by (auto simp: list_all_iff)
  with e(2) have r2: "region_ok ?n (h1 @ [Strings refs])" by (rule region_ok_append)
  have n1: "?n \<le> length h1" by (simp add: e(1))
  have "cell_ok ?n ((h1 @ [Strings refs]) @ [?R]) ?R"
    using n1 by (simp add: points_def nth_append)
  with r2 have "region_ok ?n h'" unfolding h' by (rule region_ok_append)
  moreover have "points ?n h' KRoot root'" using n1 by (simp add: h' root' points_def nth_append)
  moreover have "\<exists>ext. h' = h @ ext" by (simp add: h' e(1))
  ultimately show ?thesis by simp
qed


lemma kindOf_cases:
  "kindOf c = KRoot \<Longrightarrow> \<exists>sl sa. c = Root sl sa"
  "kindOf c = KStrings \<Longrightarrow> \<exists>refs. c = Strings refs"
  "kindOf c = KEntry \<Longrightarrow> \<exists>cm s x l. c = Entry cm s x l"
  "kindOf c = KLocs \<Longrightarrow> \<exists>refs. c = Locs refs"
  "kindOf c = KLoc \<Longrightarrow> \<exists>su. c = Loc su"
  by (cases c; simp)+

lemma those_map_Some:
  "(\<And>x. x \<in> set xs \<Longrightarrow> \<exists>y. f x = Some y) \<Longrightarrow> \<exists>ys. those (map f xs) = Some ys"
proof (induction xs)
  case Nil
  then show ?case by simp
next
  case (Cons x xs)
  then obtain y ys where "f x = Some y" "those (map f xs) = Some ys" by (meson list.set_intros)
  then show ?case by simp
qed

lemma readLoc_total: "points n h KLoc a \<Longrightarrow> \<exists>loc. readLoc h a = Some loc"
  using kindOf_cases(5)[of "h ! a"] by (auto simp: readLoc_def points_cellAt points_def)

lemma readLocs_total:
  assumes "region_ok n h" "points n h KLocs la"
  shows "\<exists>locs. readLocs h la = Some locs"
proof -
  obtain refs where c: "h ! la = Locs refs"
    using assms(2) kindOf_cases(4)[of "h ! la"] by (auto simp: points_def)
  have "cell_ok n h (Locs refs)" using region_ok_cell[OF assms] c by simp
  then have "\<And>p. p \<in> set refs \<Longrightarrow> \<exists>y. (case p of (l, a) \<Rightarrow> readLoc h a) = Some y"
    using readLoc_total by (fastforce simp: list_all_iff)
  then obtain ys where "those (map (\<lambda>(l, a). readLoc h a) refs) = Some ys"
    using those_map_Some by blast
  then show ?thesis using c assms(2) by (simp add: readLocs_def points_cellAt readAll_def)
qed

lemma analyzeEntryS_ok:
  assumes r: "region_ok n h" and sa: "points n h KStrings sa" and ea: "points n h KEntry ea"
  shows "\<exists>h' out'. analyzeEntryS L hint sa k ea (h, out) = Some (h', out') \<and>
           frame n h h' \<and> region_ok n h'"
proof -
  obtain c sh x lref where e: "h ! ea = Entry c sh x lref"
    using ea kindOf_cases(3)[of "h ! ea"] by (auto simp: points_def)
  obtain refs where s: "h ! sa = Strings refs"
    using sa kindOf_cases(2)[of "h ! sa"] by (auto simp: points_def)
  have ce: "cellAt h ea = Some (Entry c sh x lref)" using ea e by (simp add: points_cellAt)
  have cs: "cellAt h sa = Some (Strings refs)" using sa s by (simp add: points_cellAt)
  have nea: "n \<le> ea" "ea < length h" and nsa: "n \<le> sa" using ea sa by (simp_all add: points_def)
  show ?thesis
  proof (cases "x = Some (str ''stale'')")
    case True
    let ?c = "Strings (AList.delete k refs)"
    have "cell_ok n h (Strings refs)" using region_ok_cell[OF r sa] s by simp
    then have ok: "cell_ok n h ?c" by (auto simp: list_all_iff AList.delete_eq)
    have k: "kindOf ?c = kindOf (h ! sa)" by (simp add: s)
    have "frame n h (h[sa := ?c])" using nsa k by (rule frame_update)
    moreover have "region_ok n (h[sa := ?c])" using r nsa k ok by (rule region_ok_update)
    ultimately show ?thesis using True ce cs by (simp add: analyzeEntryS_def)
  next
    case nostale: False
    show ?thesis
    proof (cases "sh = Some False")
      case True
      then show ?thesis using nostale ce r by (simp add: analyzeEntryS_def frame_refl)
    next
      case False
      have "\<exists>h1 locs. (case lref of
                     None \<Rightarrow> Some ((h @ [Locs []])[ea := Entry c sh x (Some (length h))], [])
                   | Some la \<Rightarrow> map_option (Pair h) (readLocs h la)) = Some (h1, locs) \<and>
                 frame n h h1 \<and> region_ok n h1"
      proof (cases lref)
        case None
        let ?h1 = "h @ [Locs []]"
        let ?c = "Entry c sh x (Some (length h))"
        have r1: "region_ok n ?h1" using r by (rule region_ok_append) simp
        have k: "kindOf ?c = kindOf (?h1 ! ea)" using nea by (simp add: nth_append e)
        have ok: "cell_ok n ?h1 ?c" using nea by (simp add: points_def)
        have "frame n ?h1 (?h1[ea := ?c])" using nea(1) k by (rule frame_update)
        then have "frame n h (?h1[ea := ?c])" using frame_append frame_trans by blast
        moreover have "region_ok n (?h1[ea := ?c])" using r1 nea(1) k ok by (rule region_ok_update)
        ultimately show ?thesis using None by simp
      next
        case (Some la)
        have "cell_ok n h (Entry c sh x lref)" using region_ok_cell[OF r ea] e by simp
        then have "points n h KLocs la" using Some by simp
        then obtain locs where "readLocs h la = Some locs" using readLocs_total[OF r] by blast
        then show ?thesis using Some r by (simp add: frame_refl)
      qed
      then obtain h1 locs where h1: "(case lref of
                     None \<Rightarrow> Some ((h @ [Locs []])[ea := Entry c sh x (Some (length h))], [])
                   | Some la \<Rightarrow> map_option (Pair h) (readLocs h la)) = Some (h1, locs)"
          "frame n h h1" "region_ok n h1" by blast
      show ?thesis
        using nostale False ce h1
        by (simp add: analyzeEntryS_def Let_def split: prod.splits)
    qed
  qed
qed

lemma analyzeKeyS_ok:
  assumes r: "region_ok n h" and sa: "points n h KStrings sa"
  shows "\<exists>h' out'. analyzeKeyS L hint sa k (h, out) = Some (h', out') \<and>
           frame n h h' \<and> region_ok n h'"
proof -
  obtain refs where s: "h ! sa = Strings refs"
    using sa kindOf_cases(2)[of "h ! sa"] by (auto simp: points_def)
  have cs: "cellAt h sa = Some (Strings refs)" using sa s by (simp add: points_cellAt)
  show ?thesis
  proof (cases "map_of refs k")
    case None
    then show ?thesis using cs r by (simp add: analyzeKeyS_def frame_refl)
  next
    case (Some ea)
    have "cell_ok n h (Strings refs)" using region_ok_cell[OF r sa] s by simp
    moreover have "(k, ea) \<in> set refs" using Some by (rule map_of_SomeD)
    ultimately have "points n h KEntry ea" by (auto simp: list_all_iff)
    from analyzeEntryS_ok[OF r sa this] show ?thesis using cs Some by (simp add: analyzeKeyS_def)
  qed
qed

lemma analyzeKeysS_ok:
  "region_ok n h \<Longrightarrow> points n h KStrings sa \<Longrightarrow>
     \<exists>h' out'. analyzeKeysS L hint sa ks (h, out) = Some (h', out') \<and>
        frame n h h' \<and> region_ok n h'"
proof (induction ks arbitrary: h out)
  case Nil
  then show ?case by (simp add: frame_refl)
next
  case (Cons k ks)
  from analyzeKeyS_ok[OF Cons.prems, of L hint k out] obtain h1 out1 where
    1: "analyzeKeyS L hint sa k (h, out) = Some (h1, out1)" "frame n h h1" "region_ok n h1"
    by blast
  have "points n h1 KStrings sa" using 1(2) Cons.prems(2) by (rule points_frame)
  from Cons.IH[OF 1(3) this, of out1] obtain h' out' where
    2: "analyzeKeysS L hint sa ks (h1, out1) = Some (h', out')" "frame n h1 h'" "region_ok n h'"
    by blast
  show ?case using 1 2 frame_trans by (auto simp: )
qed

text \<open>Reading an object graph gives the same value in every store that kept its cells.\<close>

definition agree :: "store \<Rightarrow> store \<Rightarrow> bool" where
  "agree h h' \<longleftrightarrow> length h \<le> length h' \<and> (\<forall>a < length h. h' ! a = h ! a)"

lemma cellAt_agree: "agree h h' \<Longrightarrow> cellAt h a = Some c \<Longrightarrow> cellAt h' a = Some c"
  by (auto simp: agree_def cellAt_def split: if_splits)

lemma those_map_agree:
  "those (map f xs) = Some ys \<Longrightarrow> (\<And>x y. x \<in> set xs \<Longrightarrow> f x = Some y \<Longrightarrow> g x = Some y) \<Longrightarrow>
     those (map g xs) = Some ys"
proof (induction xs arbitrary: ys)
  case Nil
  then show ?case by simp
next
  case (Cons x xs)
  from Cons.prems(1) obtain y ys' where y: "f x = Some y" "those (map f xs) = Some ys'" "ys = y # ys'"
    by (auto split: option.splits)
  have "those (map g xs) = Some ys'" using y(2) Cons.prems(2) by (intro Cons.IH) auto
  moreover have "g x = Some y" using y(1) Cons.prems(2) by simp
  ultimately show ?case using y(3) by simp
qed

lemma readAll_agree:
  "readAll f refs = Some al \<Longrightarrow> (\<And>a v. f a = Some v \<Longrightarrow> g a = Some v) \<Longrightarrow>
     readAll g refs = Some al"
  unfolding readAll_def
  using those_map_agree[of "\<lambda>(k, a). f a" refs _ "\<lambda>(k, a). g a"]
  by (auto split: prod.splits)

lemma readLoc_agree: "agree h h' \<Longrightarrow> readLoc h a = Some v \<Longrightarrow> readLoc h' a = Some v"
  unfolding readLoc_def
  by (auto split: option.splits cell.splits dest: cellAt_agree)

lemma readLocs_agree:
  assumes "agree h h'" "readLocs h a = Some v"
  shows "readLocs h' a = Some v"
proof -
  from assms(2) obtain refs where c: "cellAt h a = Some (Locs refs)"
    and r: "readAll (readLoc h) refs = Some v"
    by (auto simp: readLocs_def split: option.splits cell.splits)
  have "cellAt h' a = Some (Locs refs)" using assms(1) c by (rule cellAt_agree)
  moreover have "readAll (readLoc h') refs = Some v"
    using r readLoc_agree[OF assms(1)] by (rule readAll_agree)
  ultimately show ?thesis by (simp add: readLocs_def)
qed

lemma readEntry_agree:
  assumes "agree h h'" "readEntry h a = Some v"
  shows "readEntry h' a = Some v"
proof -
  from assms(2) obtain c s x l where c: "cellAt h a = Some (Entry c s x l)"
    by (auto simp: readEntry_def split: option.splits cell.splits)
  have c': "cellAt h' a = Some (Entry c s x l)" using assms(1) c by (rule cellAt_agree)
  show ?thesis
  proof (cases l)
    case None
    then show ?thesis using assms(2) c c' by (simp add: readEntry_def)
  next
    case (Some la)
    then obtain locs where "readLocs h la = Some locs"
      and v: "v = \<lparr>comment = c, shouldTranslate = s, extractionState = x,
                    localizations = Some locs\<rparr>"
      using assms(2) c by (auto simp: readEntry_def)
    then have "readLocs h' la = Some locs" using readLocs_agree[OF assms(1)] by simp
    then show ?thesis using Some c' v by (simp add: readEntry_def)
  qed
qed

lemma readCatalog_agree:
  assumes "agree h h'" "readCatalog h a = Some v"
  shows "readCatalog h' a = Some v"
proof -
  from assms(2) obtain sl sa refs al where c: "cellAt h a = Some (Root sl sa)"
    and s: "cellAt h sa = Some (Strings refs)"
    and r: "readAll (readEntry h) refs = Some al"
    and v: "v = \<lparr>sourceLanguage = sl, strings = al\<rparr>"
    by (auto simp: readCatalog_def split: option.splits cell.splits)
  have "cellAt h' a = Some (Root sl sa)" using assms(1) c by (rule cellAt_agree)
  moreover have "cellAt h' sa = Some (Strings refs)" using assms(1) s by (rule cellAt_agree)
  moreover have "readAll (readEntry h') refs = Some al"
    using r readEntry_agree[OF assms(1)] by (rule readAll_agree)
  ultimately show ?thesis using v by (simp add: readCatalog_def)
qed


lemma applyTranslationS_ok:
  assumes r: "region_ok n h" and ea: "points n h KEntry ea"
  shows "applyTranslationS k info ea p (h, ch, names) = Some (Inl TypeError) \<or>
         (\<exists>h' ch' names'.
            applyTranslationS k info ea p (h, ch, names) = Some (Inr (h', ch', names')) \<and>
            frame n h h' \<and> region_ok n h')"
proof -
  obtain lang v where p: "p = (lang, v)" by (cases p)
  obtain c sh x lref where e: "h ! ea = Entry c sh x lref"
    using ea kindOf_cases(3)[of "h ! ea"] by (auto simp: points_def)
  have ce: "cellAt h ea = Some (Entry c sh x lref)" using ea e by (simp add: points_cellAt)
  show ?thesis
  proof (cases "lang \<in> set (languages info)")
    case False
    then show ?thesis using r by (simp add: applyTranslationS_def p frame_refl)
  next
    case True
    show ?thesis
    proof (cases lref)
      case None
      then show ?thesis using True ce by (simp add: applyTranslationS_def p)
    next
      case (Some la)
      have "cell_ok n h (Entry c sh x lref)" using region_ok_cell[OF r ea] e by simp
      then have la: "points n h KLocs la" using Some by simp
      obtain refs where l: "h ! la = Locs refs"
        using la kindOf_cases(4)[of "h ! la"] by (auto simp: points_def)
      have cl: "cellAt h la = Some (Locs refs)" using la l by (simp add: points_cellAt)
      show ?thesis
      proof (cases "map_of refs lang")
        case None
        then show ?thesis using True ce Some cl r
          by (simp add: applyTranslationS_def getProperty_def p frame_refl)
      next
        case found: (Some ca)
        have "cell_ok n h (Locs refs)" using region_ok_cell[OF r la] l by simp
        moreover have "(lang, ca) \<in> set refs" using found by (rule map_of_SomeD)
        ultimately have ca: "points n h KLoc ca" by (auto simp: list_all_iff)
        obtain su where u: "h ! ca = Loc su"
          using ca kindOf_cases(5)[of "h ! ca"] by (auto simp: points_def)
        have cc: "cellAt h ca = Some (Loc su)" using ca u by (simp add: points_cellAt)
        let ?c = "Loc (Some \<lparr>state = str ''translated'', value' = Some v\<rparr>)"
        have nca: "n \<le> ca" using ca by (simp add: points_def)
        have k: "kindOf ?c = kindOf (h ! ca)" by (simp add: u)
        have "frame n h (h[ca := ?c])" using nca k by (rule frame_update)
        moreover have "region_ok n (h[ca := ?c])" using r nca k by (rule region_ok_update) simp
        ultimately show ?thesis
          using True ce Some cl found cc by (simp add: applyTranslationS_def getProperty_def p)
      qed
    qed
  qed
qed

lemma applyTranslationsS_ok:
  "region_ok n h \<Longrightarrow> points n h KEntry ea \<Longrightarrow>
     \<exists>h' ch' names' err.
        applyTranslationsS k info ea ps (h, ch, names) = Some (h', ch', names', err) \<and>
        frame n h h' \<and> region_ok n h'"
proof (induction ps arbitrary: h ch names)
  case Nil
  then show ?case by (simp add: frame_refl)
next
  case (Cons p ps)
  from applyTranslationS_ok[OF Cons.prems, of k info p ch names]
  show ?case
  proof
    assume "applyTranslationS k info ea p (h, ch, names) = Some (Inl TypeError)"
    then show ?thesis using Cons.prems(1) by (simp add: frame_refl)
  next
    assume "\<exists>h' ch' names'.
              applyTranslationS k info ea p (h, ch, names) = Some (Inr (h', ch', names')) \<and>
              frame n h h' \<and> region_ok n h'"
    then obtain h1 ch1 names1 where
      1: "applyTranslationS k info ea p (h, ch, names) = Some (Inr (h1, ch1, names1))"
        "frame n h h1" "region_ok n h1" by blast
    have "points n h1 KEntry ea" using 1(2) Cons.prems(2) by (rule points_frame)
    from Cons.IH[OF 1(3) this, of ch1 names1] obtain h' ch' names' err where
      2: "applyTranslationsS k info ea ps (h1, ch1, names1) = Some (h', ch', names', err)"
         "frame n h1 h'" "region_ok n h'" by blast
    show ?thesis using 1 2 frame_trans by auto
  qed
qed

lemma mergeTranslationsS_ok:
  "region_ok n h \<Longrightarrow> points n h KStrings sa \<Longrightarrow>
     \<exists>h' ch' ws' err.
        mergeTranslationsS stm sa items (h, ch, ws, names) = Some (h', ch', ws', err) \<and>
        frame n h h' \<and> region_ok n h'"
proof (induction items arbitrary: h ch ws names)
  case Nil
  then show ?case by (simp add: frame_refl)
next
  case (Cons item items)
  obtain refs where s: "h ! sa = Strings refs"
    using Cons.prems(2) kindOf_cases(2)[of "h ! sa"] by (auto simp: points_def)
  have cs: "cellAt h sa = Some (Strings refs)" using Cons.prems(2) s by (simp add: points_cellAt)
  show ?case
  proof (cases "\<exists>ea info. map_of refs (key' item) = Some ea \<and> stm (key' item) = Some info")
    case False
    then have "mergeTranslationsS stm sa (item # items) (h, ch, ws, names) =
                 mergeTranslationsS stm sa items
                   (h, ch, ws @ [unknownKeyWarning (key' item)], names)"
      using cs by (auto split: option.splits)
    then show ?thesis using Cons.IH[OF Cons.prems] by simp
  next
    case True
    then obtain ea info where f: "map_of refs (key' item) = Some ea" "stm (key' item) = Some info"
      by blast
    have "cell_ok n h (Strings refs)" using region_ok_cell[OF Cons.prems] s by simp
    moreover have "(key' item, ea) \<in> set refs" using f(1) by (rule map_of_SomeD)
    ultimately have ea: "points n h KEntry ea" by (auto simp: list_all_iff)
    from applyTranslationsS_ok[OF Cons.prems(1) ea, of "key' item" info "translations' item" ch
        names]
    obtain h1 ch1 names1 err where
      1: "applyTranslationsS (key' item) info ea (translations' item) (h, ch, names) =
        Some (h1, ch1, names1, err)" "frame n h h1" "region_ok n h1" by blast
    show ?thesis
    proof (cases err)
      case (Some e)
      then show ?thesis using cs f 1 by simp
    next
      case None
      have "points n h1 KStrings sa" using 1(2) Cons.prems(2) by (rule points_frame)
      from Cons.IH[OF 1(3) this, of ch1 ws names1] obtain h' ch' ws' err' where
        2: "mergeTranslationsS stm sa items (h1, ch1, ws, names1) = Some (h', ch', ws', err')"
           "frame n h1 h'" "region_ok n h'" by blast
      show ?thesis using cs f 1 2 None frame_trans by auto
    qed
  qed
qed

lemma analyzeStringsForTranslationS_ok:
  assumes "readCatalog h xcstringsData = Some cat"
  shows "\<exists>h' modified out. analyzeStringsForTranslationS h xcstringsData L hint =
            Some (h', modified, out) \<and>
           agree h h' \<and> region_ok (length h) h' \<and> points (length h) h' KRoot modified"
proof -
  let ?n = "length h"
  obtain h0 root' where a: "allocCatalog h cat = (h0, root')" by (cases "allocCatalog h cat")
  then have dc: "deepCopy h xcstringsData = Some (h0, root')"
    using assms by (simp add: deepCopy_def)
  from allocCatalog_props[OF a] obtain ext where
    0: "h0 = h @ ext" "region_ok ?n h0" "points ?n h0 KRoot root'" by auto
  obtain sl sa where rc: "h0 ! root' = Root sl sa"
    using 0(3) kindOf_cases(1)[of "h0 ! root'"] by (auto simp: points_def)
  have cr: "cellAt h0 root' = Some (Root sl sa)" using 0(3) rc by (simp add: points_cellAt)
  have sa: "points ?n h0 KStrings sa" using region_ok_cell[OF 0(2,3)] rc by simp
  obtain refs where s: "h0 ! sa = Strings refs"
    using sa kindOf_cases(2)[of "h0 ! sa"] by (auto simp: points_def)
  have cs: "cellAt h0 sa = Some (Strings refs)" using sa s by (simp add: points_cellAt)
  from analyzeKeysS_ok[OF 0(2) sa, of L hint "map fst refs" initialOutput] obtain h' out' where
    1: "analyzeKeysS L hint sa (map fst refs) (h0, initialOutput) = Some (h', out')"
       "frame ?n h0 h'" "region_ok ?n h'" by blast
  have "agree h h'" using 1(2) by (auto simp: agree_def frame_def 0(1) nth_append)
  moreover have "points ?n h' KRoot root'" using 1(2) 0(3) by (rule points_frame)
  moreover have "analyzeStringsForTranslationS h xcstringsData L hint = Some (h', root', out')"
    using dc cr cs 1(1) by (simp add: analyzeStringsForTranslationS_def)
  ultimately show ?thesis using 1(3) by blast
qed

section \<open>The store model and the value model agree\<close>

lemma readAll_Nil: "readAll f [] = Some []"
  by (simp add: readAll_def)

lemma readAll_Cons:
  "readAll f ((k, a) # refs) =
     (case f a of None \<Rightarrow> None
      | Some v \<Rightarrow> map_option (\<lambda>al. (k, v) # al) (readAll f refs))"
  by (cases "those (map (\<lambda>(k, a). f a) refs)") (auto simp: readAll_def split: option.splits)

lemma readAll_keys: "readAll f refs = Some al \<Longrightarrow> map fst al = map fst refs"
proof (induction refs arbitrary: al)
  case Nil
  then show ?case by (simp add: readAll_Nil)
next
  case (Cons p refs)
  then show ?case by (cases p) (auto simp: readAll_Cons split: option.splits)
qed

lemma readAll_lookup:
  "readAll f refs = Some al \<Longrightarrow> map_of refs k = Some a \<Longrightarrow>
     \<exists>v. f a = Some v \<and> map_of al k = Some v"
proof (induction refs arbitrary: al)
  case Nil
  then show ?case by simp
next
  case (Cons p refs)
  then show ?case by (cases p) (auto simp: readAll_Cons split: option.splits if_splits)
qed

lemma readAll_lookup_None:
  "readAll f refs = Some al \<Longrightarrow> map_of refs k = None \<Longrightarrow> map_of al k = None"
proof -
  assume a: "readAll f refs = Some al" "map_of refs k = None"
  have "k \<notin> set (map fst refs)" using a(2) by (simp add: map_of_eq_None_iff)
  then have "k \<notin> set (map fst al)" using readAll_keys[OF a(1)] by simp
  then show ?thesis by (simp add: map_of_eq_None_iff)
qed

lemma readAll_agree_on:
  "readAll f refs = Some al \<Longrightarrow>
     (\<And>a w. a \<in> snd ` set refs \<Longrightarrow> f a = Some w \<Longrightarrow> g a = Some w) \<Longrightarrow>
     readAll g refs = Some al"
proof (induction refs arbitrary: al)
  case Nil
  then show ?case by (simp add: readAll_Nil)
next
  case (Cons p refs)
  obtain k0 a0 where p: "p = (k0, a0)" by (cases p)
  from Cons.prems(1) obtain v0 al0 where r: "f a0 = Some v0" "readAll f refs = Some al0"
      "al = (k0, v0) # al0"
    by (auto simp: p readAll_Cons split: option.splits)
  have "g a0 = Some v0" using Cons.prems(2)[of a0 v0] r(1) by (simp add: p)
  moreover have "readAll g refs = Some al0"
    using r(2)
  proof (rule Cons.IH)
    fix a w assume "a \<in> snd ` set refs" "f a = Some w"
    then show "g a = Some w" using Cons.prems(2)[of a w] by (simp add: p)
  qed
  ultimately show ?case using r(3) by (simp add: p readAll_Cons)
qed

lemma readAll_delete:
  "readAll f refs = Some al \<Longrightarrow> readAll f (AList.delete k refs) = Some (AList.delete k al)"
proof (induction refs arbitrary: al)
  case Nil
  then show ?case by (simp add: readAll_Nil)
next
  case (Cons p refs)
  then show ?case by (cases p) (auto simp: readAll_Cons split: option.splits)
qed

lemma readAll_update:
  "readAll f refs = Some al \<Longrightarrow> distinct (map fst refs) \<Longrightarrow> distinct (map snd refs) \<Longrightarrow>
     map_of refs k = Some ea \<Longrightarrow> g ea = Some v \<Longrightarrow>
     (\<And>a w. a \<in> snd ` set refs \<Longrightarrow> a \<noteq> ea \<Longrightarrow> f a = Some w \<Longrightarrow> g a = Some w) \<Longrightarrow>
     readAll g refs = Some (AList.update k v al)"
proof (induction refs arbitrary: al)
  case Nil
  then show ?case by simp
next
  case (Cons p refs)
  obtain k0 a0 where p: "p = (k0, a0)" by (cases p)
  from Cons.prems(1) obtain v0 al0 where r: "f a0 = Some v0" "readAll f refs = Some al0"
      "al = (k0, v0) # al0"
    by (auto simp: p readAll_Cons split: option.splits)
  show ?case
  proof (cases "k0 = k")
    case True
    then have ea: "a0 = ea" using Cons.prems(4) by (simp add: p)
    have "ea \<notin> snd ` set refs" using Cons.prems(3) ea by (auto simp: p)
    have "readAll g refs = Some al0"
      using r(2)
    proof (rule readAll_agree_on)
      fix a w assume a: "a \<in> snd ` set refs" "f a = Some w"
      then have "a \<noteq> ea" using \<open>ea \<notin> snd ` set refs\<close> by auto
      then show "g a = Some w" using Cons.prems(6)[of a w] a by (simp add: p)
    qed
    then show ?thesis using True ea Cons.prems(5) r(3) by (simp add: p readAll_Cons)
  next
    case False
    then have look: "map_of refs k = Some ea" using Cons.prems(4) by (simp add: p)
    then have "(k, ea) \<in> set refs" by (rule map_of_SomeD)
    then have "ea \<in> snd ` set refs" by force
    then have ne: "a0 \<noteq> ea" using Cons.prems(3) by (auto simp: p)
    have g0: "g a0 = Some v0" using Cons.prems(6)[of a0 v0] ne r(1) by (simp add: p)
    have d1: "distinct (map fst refs)" using Cons.prems(2) by simp
    have d2: "distinct (map snd refs)" using Cons.prems(3) by simp
    have "readAll g refs = Some (AList.update k v al0)"
      using r(2) d1 d2 look Cons.prems(5)
    proof (rule Cons.IH)
      fix a w assume "a \<in> snd ` set refs" "a \<noteq> ea" "f a = Some w"
      then show "g a = Some w" using Cons.prems(6)[of a w] by (simp add: p)
    qed
    then show ?thesis using False g0 r(3) by (simp add: p readAll_Cons)
  qed
qed


lemma keeps_cellAt: "keeps h h' X \<Longrightarrow> b \<notin> X \<Longrightarrow> cellAt h b = Some c \<Longrightarrow> cellAt h' b = Some c"
  by (simp add: keeps_def)

lemma readLoc_keeps:
  assumes "keeps h h' X" "no_locs_at h X" "readLoc h a = Some v"
  shows "readLoc h' a = Some v"
proof -
  from assms(3) obtain su where c: "cellAt h a = Some (Loc su)" and v: "v = \<lparr>stringUnit = su\<rparr>"
    by (auto simp: readLoc_def split: option.splits cell.splits)
  have "a \<notin> X" using assms(2) c by (auto simp: no_locs_at_def)
  then have "cellAt h' a = Some (Loc su)" using assms(1) c by (simp add: keeps_def)
  then show ?thesis using v by (simp add: readLoc_def)
qed

lemma readLocs_keeps:
  assumes "keeps h h' X" "no_locs_at h X" "readLocs h a = Some v"
  shows "readLocs h' a = Some v"
proof -
  from assms(3) obtain refs where c: "cellAt h a = Some (Locs refs)"
    and r: "readAll (readLoc h) refs = Some v"
    by (auto simp: readLocs_def split: option.splits cell.splits)
  have "a \<notin> X" using assms(2) c by (auto simp: no_locs_at_def)
  then have "cellAt h' a = Some (Locs refs)" using assms(1) c by (simp add: keeps_def)
  moreover have "readAll (readLoc h') refs = Some v"
    using r readLoc_keeps[OF assms(1,2)] by (rule readAll_agree)
  ultimately show ?thesis by (simp add: readLocs_def)
qed

lemma readEntry_keeps:
  assumes "keeps h h' X" "no_locs_at h X" "a \<notin> X" "readEntry h a = Some v"
  shows "readEntry h' a = Some v"
proof -
  from assms(4) obtain c s x l where c: "cellAt h a = Some (Entry c s x l)"
    by (auto simp: readEntry_def split: option.splits cell.splits)
  have c': "cellAt h' a = Some (Entry c s x l)" using assms(1,3) c by (simp add: keeps_def)
  show ?thesis
  proof (cases l)
    case None
    then show ?thesis using assms(4) c c' by (simp add: readEntry_def)
  next
    case (Some la)
    then obtain locs where "readLocs h la = Some locs"
      and v: "v = \<lparr>comment = c, shouldTranslate = s, extractionState = x,
                    localizations = Some locs\<rparr>"
      using assms(4) c by (auto simp: readEntry_def)
    then have "readLocs h' la = Some locs" using readLocs_keeps[OF assms(1,2)] by simp
    then show ?thesis using Some c' v by (simp add: readEntry_def)
  qed
qed

lemma cellAt_update:
  "cellAt (h[a := c]) b = (if b = a \<and> a < length h then Some c else cellAt h b)"
  by (auto simp: cellAt_def)

lemma cellAt_append: "cellAt h b = Some c \<Longrightarrow> cellAt (h @ ext) b = Some c"
  by (auto simp: cellAt_def nth_append split: if_splits)

lemma keeps_update: "keeps h (h[a := c]) {a}"
  by (simp add: keeps_def cellAt_update)

lemma keeps_append_update: "keeps h ((h @ ext)[a := c]) {a}"
  by (auto simp: keeps_def cellAt_update dest: cellAt_append)

lemma readEntry_SomeD:
  "readEntry h a = Some e \<Longrightarrow>
     \<exists>lref. cellAt h a = Some (Entry (comment e) (shouldTranslate e) (extractionState e) lref) \<and>
       (case lref of None \<Rightarrow> localizations e = None
        | Some la \<Rightarrow> \<exists>locs. readLocs h la = Some locs \<and> localizations e = Some locs)"
  by (auto simp: readEntry_def split: option.splits cell.splits)

text \<open>Reading what was allocated gives the allocated value back.\<close>

lemma allocLocs_read:
  "allocLocs h locs = (h1, refs) \<Longrightarrow> agree h1 H \<Longrightarrow> readAll (readLoc H) refs = Some locs"
proof (induction locs arbitrary: h refs)
  case Nil
  then show ?case by (simp add: readAll_Nil)
next
  case (Cons p locs)
  obtain l loc where p: "p = (l, loc)" by (cases p)
  obtain refs' where a: "allocLocs (h @ [Loc (stringUnit loc)]) locs = (h1, refs')"
    and refs: "refs = (l, length h) # refs'"
    using Cons.prems(1) by (auto simp: p split: prod.splits)
  have "h1 = (h @ [Loc (stringUnit loc)]) @ map (\<lambda>(l, loc). Loc (stringUnit loc)) locs"
    using a by (simp add: allocLocs_eq)
  then have "cellAt h1 (length h) = Some (Loc (stringUnit loc))"
    by (simp add: cellAt_def nth_append)
  then have "cellAt H (length h) = Some (Loc (stringUnit loc))"
    using Cons.prems(2) by (rule cellAt_agree[rotated])
  then have "readLoc H (length h) = Some loc" by (simp add: readLoc_def)
  moreover have "readAll (readLoc H) refs' = Some locs" using a Cons.prems(2) by (rule Cons.IH)
  ultimately show ?case by (simp add: refs p readAll_Cons)
qed

lemma agree_append_left: "agree (h @ ext) H \<Longrightarrow> agree h H"
  by (auto simp: agree_def nth_append)

lemma agree_refl: "agree h h"
  by (simp add: agree_def)

lemma allocEntry_read:
  assumes "allocEntry h e = (h', ea)" "agree h' H"
  shows "readEntry H ea = Some e"
proof (cases "localizations e")
  case None
  then have h': "h' = h @ [Entry (comment e) (shouldTranslate e) (extractionState e) None]"
    and ea: "ea = length h"
    using assms(1) by (simp_all add: allocEntry_def)
  have "cellAt h' ea = Some (Entry (comment e) (shouldTranslate e) (extractionState e) None)"
    by (simp add: h' ea cellAt_def)
  then have "cellAt H ea = Some (Entry (comment e) (shouldTranslate e) (extractionState e) None)"
    using assms(2) by (rule cellAt_agree[rotated])
  then show ?thesis using None by (simp add: readEntry_def)
next
  case (Some locs)
  obtain h1 refs where a: "allocLocs h locs = (h1, refs)" by (cases "allocLocs h locs")
  let ?E = "Entry (comment e) (shouldTranslate e) (extractionState e) (Some (length h1))"
  have h': "h' = (h1 @ [Locs refs]) @ [?E]" and ea: "ea = Suc (length h1)"
    using assms(1) Some a by (simp_all add: allocEntry_def)
  have "cellAt h' ea = Some ?E" by (simp add: h' ea cellAt_def nth_append)
  then have ce: "cellAt H ea = Some ?E" using assms(2) by (rule cellAt_agree[rotated])
  have "cellAt h' (length h1) = Some (Locs refs)" by (simp add: h' cellAt_def nth_append)
  then have cl: "cellAt H (length h1) = Some (Locs refs)" using assms(2) by (rule cellAt_agree[rotated])
  have "agree h1 H" using assms(2) unfolding h' by (simp add: agree_append_left)
  then have "readAll (readLoc H) refs = Some locs" using a by (simp add: allocLocs_read)
  then have "readLocs H (length h1) = Some locs" using cl by (simp add: readLocs_def)
  then show ?thesis using ce Some by (simp add: readEntry_def)
qed

lemma allocEntries_read:
  "allocEntries h al = (h', refs) \<Longrightarrow> agree h' H \<Longrightarrow>
     readAll (readEntry H) refs = Some al \<and> distinct (map snd refs) \<and>
     (\<forall>a \<in> snd ` set refs. length h \<le> a \<and> a < length h')"
proof (induction al arbitrary: h refs)
  case Nil
  then show ?case by (simp add: readAll_Nil)
next
  case (Cons p al)
  obtain k e where p: "p = (k, e)" by (cases p)
  obtain h1 ea where a1: "allocEntry h e = (h1, ea)" by (cases "allocEntry h e")
  obtain refs2 where a2: "allocEntries h1 al = (h', refs2)" and refs: "refs = (k, ea) # refs2"
    using Cons.prems(1) by (auto simp: p a1 split: prod.splits)
  have r0: "region_ok (length h) h" by (auto simp: region_ok_def)
  from allocEntry_props[OF a1 _ r0] obtain ext1 where
    e1: "h1 = h @ ext1" "points (length h) h1 KEntry ea" by auto
  have r1: "region_ok (length h1) h1" by (auto simp: region_ok_def)
  from allocEntries_props[OF a2 _ r1] obtain ext2 where e2: "h' = h1 @ ext2" by auto
  from Cons.IH[OF a2 Cons.prems(2)] have
    ih: "readAll (readEntry H) refs2 = Some al" "distinct (map snd refs2)"
        "\<forall>a \<in> snd ` set refs2. length h1 \<le> a \<and> a < length h'" by auto
  have "agree h1 H" using Cons.prems(2) unfolding e2 by (rule agree_append_left)
  then have "readEntry H ea = Some e" using a1 by (simp add: allocEntry_read)
  moreover have ea: "length h \<le> ea" "ea < length h1" using e1(2) by (simp_all add: points_def)
  moreover have "ea \<notin> snd ` set refs2" using ih(3) ea(2) by auto
  moreover have "length h \<le> length h1" "length h1 \<le> length h'" by (simp_all add: e1(1) e2)
  ultimately show ?case using ih by (auto simp: refs p readAll_Cons)
qed

lemma allocCatalog_read:
  assumes "allocCatalog h cat = (h0, m)"
  shows "\<exists>sa refs. cellAt h0 m = Some (Root (sourceLanguage cat) sa) \<and>
           cellAt h0 sa = Some (Strings refs) \<and>
           readAll (readEntry h0) refs = Some (strings cat) \<and> distinct (map snd refs)"
proof -
  obtain h1 refs where a: "allocEntries h (strings cat) = (h1, refs)"
    by (cases "allocEntries h (strings cat)")
  let ?R = "Root (sourceLanguage cat) (length h1)"
  have h0: "h0 = (h1 @ [Strings refs]) @ [?R]" and m: "m = Suc (length h1)"
    using assms a by (simp_all add: allocCatalog_def)
  have "agree h1 h0" by (simp add: h0 agree_def nth_append)
  from allocEntries_read[OF a this] have "readAll (readEntry h0) refs = Some (strings cat)"
    "distinct (map snd refs)" by auto
  moreover have "cellAt h0 m = Some ?R" by (simp add: h0 m cellAt_def nth_append)
  moreover have "cellAt h0 (length h1) = Some (Strings refs)" by (simp add: h0 cellAt_def nth_append)
  ultimately show ?thesis by blast
qed


lemma entry_not_strings:
  "readEntry h a = Some e \<Longrightarrow> cellAt h sa = Some (Strings refs) \<Longrightarrow> a \<noteq> sa"
  by (auto simp: readEntry_def split: option.splits cell.splits)

lemma copy_reads_delete:
  assumes "copy_reads m sa h cat" "cellAt h sa = Some (Strings refs)"
  shows "copy_reads m sa (h[sa := Strings (AList.delete k refs)])
           (cat\<lparr>strings := AList.delete k (strings cat)\<rparr>)"
proof -
  let ?h = "h[sa := Strings (AList.delete k refs)]"
  from assms have c: "cellAt h m = Some (Root (sourceLanguage cat) sa)"
    and r: "readAll (readEntry h) refs = Some (strings cat)"
    and d: "distinct (map fst refs)" "distinct (map snd refs)"
    by (auto simp: copy_reads_def)
  have sa: "sa < length h" using assms(2) by (simp add: cellAt_def split: if_splits)
  have "m \<noteq> sa" using c assms(2) by auto
  then have 1: "cellAt ?h m = Some (Root (sourceLanguage cat) sa)" using c by (simp add: cellAt_update)
  have 2: "cellAt ?h sa = Some (Strings (AList.delete k refs))" using sa by (simp add: cellAt_update)
  have nl: "no_locs_at h {sa}" using assms(2) by (simp add: no_locs_at_def)
  have "readAll (readEntry h) (AList.delete k refs) = Some (AList.delete k (strings cat))"
    using r by (rule readAll_delete)
  then have 3: "readAll (readEntry ?h) (AList.delete k refs) = Some (AList.delete k (strings cat))"
  proof (rule readAll_agree_on)
    fix a w assume "readEntry h a = Some w"
    moreover from this have "a \<notin> {sa}" using entry_not_strings[OF _ assms(2)] by auto
    ultimately show "readEntry ?h a = Some w"
      using readEntry_keeps[OF keeps_update nl] by blast
  qed
  have 4: "distinct (map fst (AList.delete k refs))" using d(1) by (rule distinct_delete)
  have 5: "distinct (map snd (AList.delete k refs))"
    using d(2) by (simp add: AList.delete_eq distinct_map_filter)
  show ?thesis using 1 2 3 4 5 by (auto simp: copy_reads_def)
qed

lemma copy_reads_normalize:
  assumes "copy_reads m sa h cat" "cellAt h sa = Some (Strings refs)" "map_of refs k = Some ea"
    and "cellAt h ea = Some (Entry c sh x None)"
  shows "copy_reads m sa ((h @ [Locs []])[ea := Entry c sh x (Some (length h))])
           (cat\<lparr>strings := AList.update k
              \<lparr>comment = c, shouldTranslate = sh, extractionState = x, localizations = Some []\<rparr>
              (strings cat)\<rparr>)"
proof -
  let ?h = "(h @ [Locs []])[ea := Entry c sh x (Some (length h))]"
  let ?e = "\<lparr>comment = c, shouldTranslate = sh, extractionState = x, localizations = Some []\<rparr>"
  from assms(1,2) have cm: "cellAt h m = Some (Root (sourceLanguage cat) sa)"
    and r: "readAll (readEntry h) refs = Some (strings cat)"
    and d: "distinct (map fst refs)" "distinct (map snd refs)"
    by (auto simp: copy_reads_def)
  have ea: "ea < length h" using assms(4) by (simp add: cellAt_def split: if_splits)
  have k: "keeps h ?h {ea}" by (rule keeps_append_update)
  have nl: "no_locs_at h {ea}" using assms(4) by (simp add: no_locs_at_def)
  have "m \<noteq> ea" using cm assms(4) by auto
  then have 1: "cellAt ?h m = Some (Root (sourceLanguage cat) sa)"
    using keeps_cellAt[OF k _ cm] by simp
  have "sa \<noteq> ea" using assms(2,4) by auto
  then have 2: "cellAt ?h sa = Some (Strings refs)" using keeps_cellAt[OF k _ assms(2)] by simp
  have "cellAt ?h ea = Some (Entry c sh x (Some (length h)))"
    using ea by (simp add: cellAt_update)
  moreover have "cellAt ?h (length h) = Some (Locs [])"
    using ea by (simp add: cellAt_def nth_append)
  ultimately have g: "readEntry ?h ea = Some ?e"
    by (simp add: readEntry_def readLocs_def readAll_Nil)
  have 3: "readAll (readEntry ?h) refs = Some (AList.update k ?e (strings cat))"
    using r d assms(3) g
  proof (rule readAll_update)
    fix a w assume "a \<noteq> ea" "readEntry h a = Some w"
    then show "readEntry ?h a = Some w" using readEntry_keeps[OF k nl] by blast
  qed
  show ?thesis using 1 2 3 d by (auto simp: copy_reads_def)
qed

lemma analyzeKeyS_sim:
  assumes cr: "copy_reads m sa h (modifiedXcstringsData st)" and om: "outputs_match out st"
    and run: "analyzeKeyS L hint sa k (h, out) = Some (h', out')"
  shows "copy_reads m sa h' (modifiedXcstringsData (analyzeKey L hint k st)) \<and>
         outputs_match out' (analyzeKey L hint k st)"
proof -
  let ?cat = "modifiedXcstringsData st"
  from cr obtain refs where cs: "cellAt h sa = Some (Strings refs)"
    and r: "readAll (readEntry h) refs = Some (strings ?cat)"
    by (auto simp: copy_reads_def)
  show ?thesis
  proof (cases "map_of refs k")
    case None
    then have "map_of (strings ?cat) k = None" using r by (simp add: readAll_lookup_None)
    then have "analyzeKey L hint k st = st" by (simp add: analyzeKey_def)
    moreover have "h' = h" "out' = out" using run cs None by (simp_all add: analyzeKeyS_def)
    ultimately show ?thesis using cr om by simp
  next
    case (Some ea)
    from readAll_lookup[OF r Some] obtain e where e: "readEntry h ea = Some e"
      "map_of (strings ?cat) k = Some e" by blast
    from readEntry_SomeD[OF e(1)] obtain lref where
      ce: "cellAt h ea = Some (Entry (comment e) (shouldTranslate e) (extractionState e) lref)"
      and lr: "case lref of None \<Rightarrow> localizations e = None
               | Some la \<Rightarrow> \<exists>locs. readLocs h la = Some locs \<and> localizations e = Some locs"
      by blast
    have pure: "analyzeKey L hint k st = analyzeEntry L hint k e st"
      using e(2) by (simp add: analyzeKey_def)
    have runE: "analyzeEntryS L hint sa k ea (h, out) = Some (h', out')"
      using run cs Some by (simp add: analyzeKeyS_def)
    show ?thesis
    proof (cases "extractionState e = Some (str ''stale'')")
      case True
      have h': "h' = h[sa := Strings (AList.delete k refs)]"
        and out': "out' = out\<lparr>modifiedOut := True,
                           changesOut := (changesOut out)
                             \<lparr>staleRemoved := staleRemoved (changesOut out) @ [k]\<rparr>\<rparr>"
        using runE ce cs True by (simp_all add: analyzeEntryS_def)
      have "copy_reads m sa h' (?cat\<lparr>strings := AList.delete k (strings ?cat)\<rparr>)"
        unfolding h' using cr cs by (rule copy_reads_delete)
      then show ?thesis
        using True om by (simp add: pure analyzeEntry_def is_stale_def set_strings_def out'
            outputs_match_def)
    next
      case nostale: False
      show ?thesis
      proof (cases "shouldTranslate e = Some False")
        case True
        then have "h' = h" "out' = out" using runE ce nostale by (simp_all add: analyzeEntryS_def)
        then show ?thesis
          using True nostale cr om by (simp add: pure analyzeEntry_def is_stale_def)
      next
        case False
        show ?thesis
        proof (cases lref)
          case None
          then have le: "localizations e = None" using lr by simp
          let ?h1 = "(h @ [Locs []])[ea := Entry (comment e) (shouldTranslate e)
                       (extractionState e) (Some (length h))]"
          have h': "h' = ?h1"
            using runE ce nostale False None
            by (auto simp: analyzeEntryS_def Let_def split: prod.splits if_splits)
          have en: "e\<lparr>localizations := Some []\<rparr> =
                \<lparr>comment = comment e, shouldTranslate = shouldTranslate e,
                 extractionState = extractionState e, localizations = Some []\<rparr>"
            by simp
          have c1: "copy_reads m sa ?h1
              (?cat\<lparr>strings := AList.update k (e\<lparr>localizations := Some []\<rparr>) (strings ?cat)\<rparr>)"
            unfolding en using cr cs Some ce[unfolded None] by (rule copy_reads_normalize)
          show ?thesis
            using runE ce nostale False None le om c1
            by (auto simp: pure analyzeEntry_def analyzeEntryS_def is_stale_def set_strings_def
                outputs_match_def Let_def copy_reads_def h' split: prod.splits if_splits)
        next
          case (Some la)
          then obtain locs where ll: "readLocs h la = Some locs" "localizations e = Some locs"
            using lr by auto
          show ?thesis
            using runE ce nostale False Some ll om cr
            by (auto simp: pure analyzeEntry_def analyzeEntryS_def is_stale_def set_strings_def
                outputs_match_def Let_def copy_reads_def split: prod.splits if_splits)
        qed
      qed
    qed
  qed
qed

lemma analyzeKeysS_sim:
  "copy_reads m sa h (modifiedXcstringsData st) \<Longrightarrow> outputs_match out st \<Longrightarrow>
     analyzeKeysS L hint sa ks (h, out) = Some (h', out') \<Longrightarrow>
     copy_reads m sa h' (modifiedXcstringsData (fold (analyzeKey L hint) ks st)) \<and>
     outputs_match out' (fold (analyzeKey L hint) ks st)"
proof (induction ks arbitrary: h out st)
  case Nil
  then show ?case by simp
next
  case (Cons k ks)
  from Cons.prems(3) obtain h1 out1 where
    1: "analyzeKeyS L hint sa k (h, out) = Some (h1, out1)"
       "analyzeKeysS L hint sa ks (h1, out1) = Some (h', out')"
    by (auto split: option.splits)
  from analyzeKeyS_sim[OF Cons.prems(1,2) 1(1)] have
    2: "copy_reads m sa h1 (modifiedXcstringsData (analyzeKey L hint k st))"
       "outputs_match out1 (analyzeKey L hint k st)" by auto
  from Cons.IH[OF 2 1(2)] show ?case by simp
qed

lemma copy_reads_readCatalog: "copy_reads m sa h cat \<Longrightarrow> readCatalog h m = Some cat"
  by (auto simp: copy_reads_def readCatalog_def)

lemma store_analysis_refines:
  assumes rd: "readCatalog h xcstringsData = Some cat"
    and d: "distinct (map fst (strings cat))"
  shows "\<exists>h' modified out.
           analyzeStringsForTranslationS h xcstringsData L hint = Some (h', modified, out) \<and>
           readCatalog h' modified =
             Some (modifiedXcstringsData (analyzeStringsForTranslation cat L hint)) \<and>
           outputs_match out (analyzeStringsForTranslation cat L hint)"
proof -
  obtain h0 m where a: "allocCatalog h cat = (h0, m)" by (cases "allocCatalog h cat")
  then have dc: "deepCopy h xcstringsData = Some (h0, m)" using rd by (simp add: deepCopy_def)
  from allocCatalog_read[OF a] obtain sa refs where
    0: "cellAt h0 m = Some (Root (sourceLanguage cat) sa)" "cellAt h0 sa = Some (Strings refs)"
       "readAll (readEntry h0) refs = Some (strings cat)" "distinct (map snd refs)" by blast
  have keys: "map fst refs = map fst (strings cat)" using readAll_keys[OF 0(3)] by simp
  have cr: "copy_reads m sa h0 (modifiedXcstringsData (initialResult cat))"
    using 0 d keys by (auto simp: copy_reads_def initialResult_def)
  have om: "outputs_match initialOutput (initialResult cat)"
    by (simp add: outputs_match_def initialOutput_def initialResult_def)
  from analyzeStringsForTranslationS_ok[OF rd, of L hint] obtain h' modified out where
    run: "analyzeStringsForTranslationS h xcstringsData L hint = Some (h', modified, out)" by blast
  then have ks: "analyzeKeysS L hint sa (map fst refs) (h0, initialOutput) = Some (h', out)"
    and mm: "modified = m"
    using dc 0(1,2) by (auto simp: analyzeStringsForTranslationS_def)
  from analyzeKeysS_sim[OF cr om ks] have
    "copy_reads m sa h' (modifiedXcstringsData (analyzeStringsForTranslation cat L hint))"
    "outputs_match out (analyzeStringsForTranslation cat L hint)"
    by (simp_all add: analyzeStringsForTranslation_def keys)
  then show ?thesis using run mm copy_reads_readCatalog by blast
qed

section \<open>The caller's catalog\<close>

text \<open>
  C5. The original input catalog is never mutated. In every store in which the caller's
  catalog object reads as a catalog value, the analysis returns, and afterwards every
  object the store held before is unchanged: the working copy and every object written
  are at new addresses, and the caller's object still reads as the same value. The same
  holds after the merge of a provider response into the working copy, whether the merge
  completes or throws. The object at the returned address reads as the modified catalog
  of the value model, and the other outputs are those of the value model (for a catalog
  with distinct keys).
\<close>

theorem caller_catalog_untouched:
  assumes "readCatalog h xcstringsData = Some cat"
  shows "(\<exists>h' modified out.
            analyzeStringsForTranslationS h xcstringsData L hint = Some (h', modified, out) \<and>
            length h \<le> length h' \<and> (\<forall>a < length h. h' ! a = h ! a) \<and>
            length h \<le> modified \<and> readCatalog h' xcstringsData = Some cat \<and>
            (distinct (map fst (strings cat)) \<longrightarrow>
               readCatalog h' modified =
                 Some (modifiedXcstringsData (analyzeStringsForTranslation cat L hint)) \<and>
               outputs_match out (analyzeStringsForTranslation cat L hint))) \<and>
         (\<exists>h'' updated ch ws err.
            runTranslationS h xcstringsData L hint batchTranslations =
              Some (h'', updated, ch, ws, err) \<and>
            length h \<le> length h'' \<and> (\<forall>a < length h. h'' ! a = h ! a) \<and>
            length h \<le> updated \<and> readCatalog h'' xcstringsData = Some cat)"
proof
  let ?n = "length h"
  from analyzeStringsForTranslationS_ok[OF assms, of L hint] obtain h' modified out where
    1: "analyzeStringsForTranslationS h xcstringsData L hint = Some (h', modified, out)"
       "agree h h'" "region_ok ?n h'" "points ?n h' KRoot modified" by blast
  have rd: "readCatalog h' xcstringsData = Some cat"
    using 1(2) assms by (rule readCatalog_agree)
  have rf: "readCatalog h' modified =
                 Some (modifiedXcstringsData (analyzeStringsForTranslation cat L hint)) \<and>
            outputs_match out (analyzeStringsForTranslation cat L hint)"
    if "distinct (map fst (strings cat))"
    using store_analysis_refines[OF assms that, of L hint] 1(1) by auto
  show "\<exists>h' modified out.
            analyzeStringsForTranslationS h xcstringsData L hint = Some (h', modified, out) \<and>
            length h \<le> length h' \<and> (\<forall>a < length h. h' ! a = h ! a) \<and>
            length h \<le> modified \<and> readCatalog h' xcstringsData = Some cat \<and>
            (distinct (map fst (strings cat)) \<longrightarrow>
               readCatalog h' modified =
                 Some (modifiedXcstringsData (analyzeStringsForTranslation cat L hint)) \<and>
               outputs_match out (analyzeStringsForTranslation cat L hint))"
    using 1 rd rf by (auto simp: agree_def points_def)
  show "\<exists>h'' updated ch ws err.
            runTranslationS h xcstringsData L hint batchTranslations =
              Some (h'', updated, ch, ws, err) \<and>
            length h \<le> length h'' \<and> (\<forall>a < length h. h'' ! a = h ! a) \<and>
            length h \<le> updated \<and> readCatalog h'' xcstringsData = Some cat"
  proof (cases "length (requestsOut out) > 0")
    case False
    then show ?thesis using 1 rd by (auto simp: runTranslationS_def agree_def points_def)
  next
    case True
    obtain sl sa where rc: "h' ! modified = Root sl sa"
      using 1(4) kindOf_cases(1)[of "h' ! modified"] by (auto simp: points_def)
    have cr: "cellAt h' modified = Some (Root sl sa)" using 1(4) rc by (simp add: points_cellAt)
    have sa: "points ?n h' KStrings sa" using region_ok_cell[OF 1(3,4)] rc by simp
    from mergeTranslationsS_ok[OF 1(3) sa, of "mapOut out" batchTranslations "changesOut out" "[]"
        objectPrototypeNames]
    obtain h'' ch ws err where
      2: "mergeTranslationsS (mapOut out) sa batchTranslations
            (h', changesOut out, [], objectPrototypeNames) =
            Some (h'', ch, ws, err)" "frame ?n h' h''" by blast
    have ag: "agree h h''" using 1(2) 2(2) by (auto simp: agree_def frame_def)
    have "readCatalog h'' xcstringsData = Some cat" using ag assms by (rule readCatalog_agree)
    moreover have "runTranslationS h xcstringsData L hint batchTranslations =
                     Some (h'', modified, ch, ws, err)"
      using 1(1) True cr 2(1) by (simp add: runTranslationS_def)
    ultimately show ?thesis using ag 1(4) by (auto simp: agree_def points_def)
  qed
qed


lemmas store_defs =
  allocCatalog_def allocEntry_def readCatalog_def readEntry_def readLocs_def readLoc_def
  readAll_def cellAt_def deepCopy_def analyzeStringsForTranslationS_def analyzeKeyS_def
  analyzeEntryS_def initialOutput_def

lemma callerStore_eq:
  "callerStore =
     [Loc (Some \<lparr>state = str ''translated'', value' = Some (str '' Hello there '')\<rparr>),
      Loc (Some \<lparr>state = str ''needs_review'', value' = Some (str ''Bonjour'')\<rparr>),
      Loc (Some \<lparr>state = str ''translated'', value' = Some (str ''Hallo'')\<rparr>),
      Locs [(str ''en'', 0), (str ''fr'', 1), (str ''de'', 2)],
      Entry (Some (str ''Greeting'')) None None (Some 3),
      Entry None (Some False) (Some (str ''stale'')) None,
      Entry None (Some False) None None,
      Entry None None None None,
      Strings [(str ''Hello'', 4), (str ''Old'', 5), (str ''Brand'', 6), (str ''Bye'', 7)],
      Root (Some (str ''en'')) 8]"
  "callerCatalog = 9"
  by (simp_all add: callerStore_def callerCatalog_def allocCatalog_def allocEntry_def
      exampleCatalog_def helloEntry_def plainEntry_def unit_of_def Let_def)

lemma callerCatalog_reads: "readCatalog callerStore callerCatalog = Some exampleCatalog"
  by (simp add: callerStore_def callerCatalog_def allocCatalog_def allocEntry_def
      exampleCatalog_def helloEntry_def plainEntry_def
      unit_of_def readCatalog_def readEntry_def readLocs_def readLoc_def readAll_def cellAt_def
      nth_append Let_def)

lemma store_analysis_example:
  "map_option (\<lambda>(h', m, out). (readCatalog h' m, requestsOut out, changesOut out,
        modifiedOut out, fallbackOut out))
     (analyzeStringsForTranslationS callerStore callerCatalog exampleLanguages None) =
   Some (Some (modifiedXcstringsData (analyzeStringsForTranslation exampleCatalog exampleLanguages None)),
         translationRequests (analyzeStringsForTranslation exampleCatalog exampleLanguages None),
         translationChanges (analyzeStringsForTranslation exampleCatalog exampleLanguages None),
         xcstringsModified (analyzeStringsForTranslation exampleCatalog exampleLanguages None),
         fallbackToKeyCount (analyzeStringsForTranslation exampleCatalog exampleLanguages None))"
  unfolding example_analysis callerStore_eq
  by (simp add: store_defs exampleCatalog_def exampleLanguages_def helloEntry_def plainEntry_def
      unit_of_def nth_append Let_def str_def needsTranslationForLang_def targetStringUnit_own
      targetLocalization_def getProperty_def objectPrototypeNames_def
      isMissingOrEmpty_def isNeedsReview_def trim_def isWhiteSpace_def sourceTextCandidate_def
      useKeyFallback_def sourceText_def)

theorem caller_catalog_untouched_witness:
  "readCatalog callerStore callerCatalog = Some exampleCatalog \<and>
   (\<exists>h' modified out.
      analyzeStringsForTranslationS callerStore callerCatalog exampleLanguages None =
        Some (h', modified, out) \<and>
      length callerStore \<le> length h' \<and> (\<forall>a < length callerStore. h' ! a = callerStore ! a) \<and>
      length callerStore \<le> modified \<and> readCatalog h' callerCatalog = Some exampleCatalog \<and>
      readCatalog h' modified =
        Some (modifiedXcstringsData
          (analyzeStringsForTranslation exampleCatalog exampleLanguages None))) \<and>
   (\<exists>h'' updated ch ws err.
      runTranslationS callerStore callerCatalog exampleLanguages None reviewResponse =
        Some (h'', updated, ch, ws, err) \<and>
      length callerStore \<le> length h'' \<and> (\<forall>a < length callerStore. h'' ! a = callerStore ! a) \<and>
      length callerStore \<le> updated \<and> readCatalog h'' callerCatalog = Some exampleCatalog)"
  using caller_catalog_untouched[OF callerCatalog_reads, of exampleLanguages None reviewResponse]
    callerCatalog_reads distinct_exampleCatalog
  by auto

lemma store_merge_example:
  "map_option (\<lambda>(h'', m, ch, ws, err). (readCatalog h'' m, ch, ws, err))
     (runTranslationS callerStore callerCatalog exampleLanguages None reviewResponse) =
   Some (Some (updatedXcstringsData exampleMerged), changes exampleMerged,
         warnings exampleMerged, None)"
  unfolding callerStore_eq
  by (simp add: runTranslationS_def applyTranslationS_def recordChange_def getProperty_def
      objectPrototypeNames_def targetLocalization_def unknownKeyWarning_def changeKey_def
      reviewResponse_def exampleMerged_def
      store_defs exampleCatalog_def exampleLanguages_def helloEntry_def plainEntry_def
      unit_of_def nth_append Let_def str_def needsTranslationForLang_def targetStringUnit_own
      isMissingOrEmpty_def isNeedsReview_def trim_def isWhiteSpace_def sourceTextCandidate_def
      useKeyFallback_def sourceText_def)

lemma store_merge_TypeError:
  "map_option (\<lambda>(h'', m, ch, ws, err). (readCatalog h'' m, ch, ws, err))
     (runTranslationS (fst (allocCatalog [] helloCatalog)) (snd (allocCatalog [] helloCatalog))
        [str ''fr''] None bonjourResponse) =
   Some (Some helloCatalog, \<lparr>added = [], updated = [], staleRemoved = []\<rparr>, [], Some TypeError)"
  by (simp add: runTranslationS_def applyTranslationS_def recordChange_def getProperty_def
      objectPrototypeNames_def targetLocalization_def unknownKeyWarning_def changeKey_def
      bonjourResponse_def helloCatalog_def
      store_defs plainEntry_def
      unit_of_def nth_append Let_def str_def needsTranslationForLang_def targetStringUnit_own
      isMissingOrEmpty_def isNeedsReview_def trim_def isWhiteSpace_def sourceTextCandidate_def
      useKeyFallback_def sourceText_def)

end
